theory Spec2Isabelle
  imports Main "HOL-Library.Sublist"
begin

section \<open>AAMU R.E.D. Guest Log: the record ledger of assets/js/app.js\<close>

text \<open>
  The development embeds the data operations of \<^verbatim>\<open>assets/js/app.js\<close>: the name
  normaliser, the local-storage record store, the automatic sign-out after eight hours,
  the sign-in and sign-out submit handlers, the record listing and the CSV export.

  Conventions of the embedding.
  \<^item> A JavaScript string is the list of its UTF-16 code units, each a \<open>nat\<close>. A string
    literal of the source is written \<open>js ''...''\<close>.
  \<^item> White space is what \<^verbatim>\<open>String.prototype.trim\<close> strips and the class \<^verbatim>\<open>\s\<close> matches: the
    ECMAScript productions WhiteSpace and LineTerminator, all of them single code units.
  \<^item> \<^verbatim>\<open>String.prototype.toLowerCase\<close> depends on the Unicode case tables of the
    platform, which are not part of the program: it is the argument \<open>toLowerCase\<close> of
    every function that calls it, and a property assumes of it only what it states.
  \<^item> A timestamp is the number of milliseconds since the epoch, an \<open>int\<close>. The ISO-8601
    text that the program stores stands in one-to-one correspondence with that number
    (\<^verbatim>\<open>new Date(iso).getTime()\<close> and \<^verbatim>\<open>new Date(ms).toISOString()\<close>), so the field
    \<^verbatim>\<open>signInAt\<close> is an \<open>int\<close> and \<^verbatim>\<open>signOutAt\<close> is an \<open>int option\<close>, where \<open>None\<close>
    is the empty string that marks an open record.
  \<^item> Every reading of the clock (\<^verbatim>\<open>Date.now()\<close>, \<^verbatim>\<open>nowISO()\<close>) is an explicit argument.
  \<^item> A handler that shows an alert of type \<^verbatim>\<open>err\<close> and returns early yields an
    \<open>error\<close>; the alert of type \<^verbatim>\<open>ok\<close> is \<open>None\<close>.
\<close>

subsection \<open>Strings\<close>

type_synonym jsString = "nat list"

definition js :: "string \<Rightarrow> jsString" where
  "js s = map of_char s"

text \<open>
  WhiteSpace (TAB, VT, FF, ZWNBSP and the space separators SP, NBSP, U+1680,
  U+2000 to U+200A, U+202F, U+205F, U+3000) and LineTerminator (LF, CR, U+2028, U+2029).
\<close>

definition isSpace :: "nat \<Rightarrow> bool" where
  "isSpace c \<longleftrightarrow>
     c = 0x09 \<or> c = 0x0A \<or> c = 0x0B \<or> c = 0x0C \<or> c = 0x0D \<or> c = 0x20 \<or> c = 0xA0 \<or>
     c = 0x1680 \<or> (0x2000 \<le> c \<and> c \<le> 0x200A) \<or> c = 0x2028 \<or> c = 0x2029 \<or>
     c = 0x202F \<or> c = 0x205F \<or> c = 0x3000 \<or> c = 0xFEFF"

text \<open>\<^verbatim>\<open>String.prototype.trim\<close>.\<close>

definition trim :: "jsString \<Rightarrow> jsString" where
  "trim s = rev (dropWhile isSpace (rev (dropWhile isSpace s)))"

text \<open>
  \<^verbatim>\<open>s.split(/\s+/)\<close>. The scan keeps the piece read so far in \<open>cur\<close>; a run of white
  space ends the piece and is skipped as a whole, since \<^verbatim>\<open>\s+\<close> is greedy; the end of the
  string ends the last piece. Hence a leading or trailing run yields an empty piece and
  the empty string splits into one empty piece.
\<close>

function splitSpaces :: "jsString \<Rightarrow> jsString \<Rightarrow> jsString list" where
  "splitSpaces cur [] = [cur]"
| "splitSpaces cur (c # cs) =
     (if isSpace c then cur # splitSpaces [] (dropWhile isSpace cs)
      else splitSpaces (cur @ [c]) cs)"
  by pat_completeness auto
termination
  by (relation "measure (\<lambda>(cur, s). length s)")
     (auto simp: length_dropWhile_le less_Suc_eq_le)

text \<open>\<^verbatim>\<open>Array.prototype.join\<close>.\<close>

fun join :: "jsString \<Rightarrow> jsString list \<Rightarrow> jsString" where
  "join sep [] = []"
| "join sep [x] = x"
| "join sep (x # y # ys) = x @ sep @ join sep (y # ys)"

definition normalizeName :: "(jsString \<Rightarrow> jsString) \<Rightarrow> jsString \<Rightarrow> jsString" where
  "normalizeName toLowerCase full = join (js '' '') (splitSpaces [] (toLowerCase (trim full)))"

definition makeNameKey :: "(jsString \<Rightarrow> jsString) \<Rightarrow> jsString \<Rightarrow> jsString \<Rightarrow> jsString" where
  "makeNameKey toLowerCase fst_name lst_name =
     normalizeName toLowerCase (fst_name @ js '' '' @ lst_name)"

text \<open>
  \<^verbatim>\<open>String.prototype.includes\<close>, named \<open>includes'\<close> since \<open>includes\<close> is a keyword: the
  needle starts at some position of the string.
\<close>

fun includes' :: "jsString \<Rightarrow> jsString \<Rightarrow> bool" where
  "includes' [] q \<longleftrightarrow> q = []"
| "includes' (c # cs) q \<longleftrightarrow> prefix q (c # cs) \<or> includes' cs q"

text \<open>\<^verbatim>\<open>String(n)\<close> for an integral number: its decimal numeral.\<close>

definition digitChar :: "nat \<Rightarrow> nat" where
  "digitChar d = 0x30 + d"

function digits :: "nat \<Rightarrow> jsString" where
  "digits n = (if n < 10 then [digitChar n] else digits (n div 10) @ [digitChar (n mod 10)])"
  by pat_completeness auto
termination
  by (relation "measure id") auto

definition numberToString :: "int \<Rightarrow> jsString" where
  "numberToString i = (if i < 0 then js ''-'' @ digits (nat (- i)) else digits (nat i))"

subsection \<open>Visit records and the record store\<close>

text \<open>
  The objects of the persisted array. The field \<^verbatim>\<open>id\<close> is \<open>id'\<close> here, since \<open>id\<close> is the
  identity function of HOL.
\<close>

record visitRecord =
  id' :: jsString
  firstName :: jsString
  lastName :: jsString
  agency :: jsString
  reason :: jsString
  otherDetails :: jsString
  signInAt :: int
  signOutAt :: "int option"
  autoSignedOut :: bool
  nameKey :: jsString

text \<open>
  The local storage under \<^verbatim>\<open>STORAGE_KEY\<close>: \<open>item\<close> is \<open>None\<close> while the key is absent,
  and otherwise the array whose JSON text is stored. \<open>writes\<close> counts the calls of
  \<^verbatim>\<open>localStorage.setItem\<close>, so that a write is visible even when it stores an equal array.
\<close>

record storage =
  item :: "visitRecord list option"
  writes :: nat

definition AUTO_SIGNOUT_HOURS :: int where
  "AUTO_SIGNOUT_HOURS = 8"

definition loadLog :: "storage \<Rightarrow> visitRecord list" where
  "loadLog st = (case item st of None \<Rightarrow> [] | Some records \<Rightarrow> records)"

definition saveLog :: "visitRecord list \<Rightarrow> storage \<Rightarrow> storage" where
  "saveLog records st = st\<lparr>item := Some records, writes := writes st + 1\<rparr>"

subsection \<open>Automatic sign-out\<close>

text \<open>
  The \<^verbatim>\<open>for (const r of records)\<close> loop of \<^verbatim>\<open>ensureAutoSignOut\<close>: the records are
  updated in place, \<open>changed\<close> is the flag of the same name.
\<close>

fun autoSignOutLoop :: "int \<Rightarrow> visitRecord list \<Rightarrow> bool \<Rightarrow> visitRecord list \<times> bool" where
  "autoSignOutLoop now [] changed = ([], changed)"
| "autoSignOutLoop now (r # rs) changed =
     (if signOutAt r \<noteq> None then
        (case autoSignOutLoop now rs changed of (rs', c) \<Rightarrow> (r # rs', c))
      else
        (let signInMs = signInAt r;
             deadlineMs = signInMs + AUTO_SIGNOUT_HOURS * 60 * 60 * 1000
         in if now \<ge> deadlineMs then
              (case autoSignOutLoop now rs True of
                 (rs', c) \<Rightarrow> (r\<lparr>signOutAt := Some deadlineMs, autoSignedOut := True\<rparr> # rs', c))
            else
              (case autoSignOutLoop now rs changed of (rs', c) \<Rightarrow> (r # rs', c))))"

definition ensureAutoSignOut :: "int \<Rightarrow> storage \<Rightarrow> storage" where
  "ensureAutoSignOut now st =
     (let records = loadLog st in
      case autoSignOutLoop now records False of
        (records', changed) \<Rightarrow> if changed then saveLog records' st else st)"

subsection \<open>Sign-out lookup\<close>

text \<open>
  The loop \<^verbatim>\<open>for (let i = records.length - 1; i >= 0; i--)\<close>: \<open>findActiveFrom records key n\<close>
  has the indices below \<open>n\<close> left to visit and visits \<open>n - 1\<close> next.
\<close>

primrec findActiveFrom :: "visitRecord list \<Rightarrow> jsString \<Rightarrow> nat \<Rightarrow> nat option" where
  "findActiveFrom records key 0 = None"
| "findActiveFrom records key (Suc i) =
     (let r = records ! i in
      if signOutAt r = None \<and> nameKey r = key then Some i
      else findActiveFrom records key i)"

definition findActiveByNameKey :: "jsString \<Rightarrow> storage \<Rightarrow> (visitRecord list \<times> nat) option" where
  "findActiveByNameKey key st =
     (let records = loadLog st in
      case findActiveFrom records key (length records) of
        None \<Rightarrow> None
      | Some index \<Rightarrow> Some (records, index))"

subsection \<open>Submit handlers\<close>

datatype error = ValidationError | NotFoundError

text \<open>The values of the five inputs of the sign-in form.\<close>

record signInForm =
  firstNameValue :: jsString
  lastNameValue :: jsString
  agencyValue :: jsString
  reasonValue :: jsString
  otherDetailsValue :: jsString

text \<open>
  \<^verbatim>\<open>crypto.randomUUID ? crypto.randomUUID() : String(Date.now())\<close>: \<open>randomUUID\<close> is
  \<open>None\<close> where the browser has no such function and otherwise the value it returns;
  \<open>tId\<close> is the clock read for the fallback.
\<close>

definition newId :: "jsString option \<Rightarrow> int \<Rightarrow> jsString" where
  "newId randomUUID tId = (case randomUUID of Some u \<Rightarrow> u | None \<Rightarrow> numberToString tId)"

text \<open>
  The submit handler of \<^verbatim>\<open>initSignIn\<close>; \<open>tNow\<close> is the clock read by \<^verbatim>\<open>nowISO()\<close>.
  The handler does not call \<^verbatim>\<open>ensureAutoSignOut\<close>; \<^verbatim>\<open>initSignIn\<close> does, when the page
  loads.
\<close>

definition signInSubmit ::
  "(jsString \<Rightarrow> jsString) \<Rightarrow> jsString option \<Rightarrow> int \<Rightarrow> int \<Rightarrow> signInForm \<Rightarrow> storage \<Rightarrow>
     error option \<times> storage" where
  "signInSubmit toLowerCase randomUUID tId tNow form st =
     (let firstNameV = trim (firstNameValue form);
          lastNameV = trim (lastNameValue form);
          agencyV = trim (agencyValue form);
          reasonVal = reasonValue form;
          otherDetailsV = trim (otherDetailsValue form)
      in if firstNameV = [] \<or> lastNameV = [] \<or> agencyV = [] then (Some ValidationError, st)
         else if reasonVal = js ''Other'' \<and> otherDetailsV = [] then (Some ValidationError, st)
         else
           (let records = loadLog st;
                record = \<lparr>id' = newId randomUUID tId,
                          firstName = firstNameV,
                          lastName = lastNameV,
                          agency = agencyV,
                          reason = reasonVal,
                          otherDetails = (if reasonVal = js ''Other'' then otherDetailsV else []),
                          signInAt = tNow,
                          signOutAt = None,
                          autoSignedOut = False,
                          nameKey = makeNameKey toLowerCase firstNameV lastNameV\<rparr>
            in (None, saveLog (records @ [record]) st)))"

text \<open>
  The submit handler of \<^verbatim>\<open>initSignOut\<close>; \<open>tAuto\<close> is the clock read by
  \<^verbatim>\<open>ensureAutoSignOut\<close> and \<open>tNow\<close> the one read by \<^verbatim>\<open>nowISO()\<close>.
\<close>

definition signOutSubmit ::
  "(jsString \<Rightarrow> jsString) \<Rightarrow> int \<Rightarrow> int \<Rightarrow> jsString \<Rightarrow> storage \<Rightarrow> error option \<times> storage" where
  "signOutSubmit toLowerCase tAuto tNow fullName st =
     (let st1 = ensureAutoSignOut tAuto st;
          key = normalizeName toLowerCase fullName
      in if key = [] then (Some ValidationError, st1)
         else
           (case findActiveByNameKey key st1 of
              None \<Rightarrow> (Some NotFoundError, st1)
            | Some (records, index) \<Rightarrow>
                (None,
                 saveLog
                   (records[index := (records ! index)\<lparr>signOutAt := Some tNow,
                                                        autoSignedOut := False\<rparr>])
                   st1)))"

text \<open>The page initialisers \<^verbatim>\<open>initHome\<close>, \<^verbatim>\<open>initSignIn\<close> and \<^verbatim>\<open>initSignOut\<close>, as far as the store goes.\<close>

definition initHome :: "int \<Rightarrow> storage \<Rightarrow> storage" where
  "initHome now st = ensureAutoSignOut now st"

definition initSignIn :: "int \<Rightarrow> storage \<Rightarrow> storage" where
  "initSignIn now st = ensureAutoSignOut now st"

definition initSignOut :: "int \<Rightarrow> storage \<Rightarrow> storage" where
  "initSignOut now st = ensureAutoSignOut now st"

subsection \<open>Record listing\<close>

text \<open>The template string that \<^verbatim>\<open>render\<close> searches, before lower-casing.\<close>

definition hay :: "visitRecord \<Rightarrow> jsString" where
  "hay r = firstName r @ js '' '' @ lastName r @ js '' '' @ agency r @ js '' '' @ reason r @
           js '' '' @ otherDetails r"

text \<open>
  \<^verbatim>\<open>render\<close> of \<^verbatim>\<open>initRecords\<close>: the rows it shows, in order, and the store it leaves.
  \<open>searchValue\<close> is the value of the search box.
\<close>

definition render ::
  "(jsString \<Rightarrow> jsString) \<Rightarrow> int \<Rightarrow> jsString \<Rightarrow> storage \<Rightarrow> visitRecord list \<times> storage" where
  "render toLowerCase now searchValue st =
     (let st1 = ensureAutoSignOut now st;
          q = toLowerCase (trim searchValue);
          records = loadLog st1;
          ordered = rev records;
          filtered = (if q \<noteq> [] then filter (\<lambda>r. includes' (toLowerCase (hay r)) q) ordered
                      else ordered)
      in (filtered, st1))"

text \<open>The click handler of the clear button, once confirmed: \<^verbatim>\<open>localStorage.removeItem\<close>.\<close>

definition clearAll :: "storage \<Rightarrow> storage" where
  "clearAll st = st\<lparr>item := None\<rparr>"

subsection \<open>Runs of the application\<close>

text \<open>
  What can happen to the store: a page is initialised (each of \<^verbatim>\<open>initHome\<close>,
  \<^verbatim>\<open>initSignIn\<close>, \<^verbatim>\<open>initSignOut\<close> and \<^verbatim>\<open>initRecords\<close> starts with
  \<^verbatim>\<open>ensureAutoSignOut\<close>), a form is submitted, the record table is rendered, or the
  collection is cleared.
\<close>

datatype operation =
    InitPage int
  | SignInSubmit "jsString option" int int signInForm
  | SignOutSubmit int int jsString
  | Render int jsString
  | ClearAll

fun exec :: "(jsString \<Rightarrow> jsString) \<Rightarrow> operation \<Rightarrow> storage \<Rightarrow> storage" where
  "exec toLowerCase (InitPage now) st = ensureAutoSignOut now st"
| "exec toLowerCase (SignInSubmit randomUUID tId tNow form) st =
     snd (signInSubmit toLowerCase randomUUID tId tNow form st)"
| "exec toLowerCase (SignOutSubmit tAuto tNow fullName) st =
     snd (signOutSubmit toLowerCase tAuto tNow fullName st)"
| "exec toLowerCase (Render now searchValue) st = snd (render toLowerCase now searchValue st)"
| "exec toLowerCase ClearAll st = clearAll st"

subsection \<open>CSV export\<close>

definition header :: "jsString list" where
  "header = [js ''first_name'', js ''last_name'', js ''agency_institution'', js ''reason'',
             js ''other_details'', js ''sign_in'', js ''sign_out'', js ''auto_signed_out'']"

text \<open>\<^verbatim>\<open>s.replace(/"/g, '""')\<close>; the double quote is the code unit \<open>0x22\<close>.\<close>

fun doubleQuotes :: "jsString \<Rightarrow> jsString" where
  "doubleQuotes [] = []"
| "doubleQuotes (c # cs) =
     (if c = 0x22 then 0x22 # 0x22 # doubleQuotes cs else c # doubleQuotes cs)"

text \<open>
  \<^verbatim>\<open>escapeCSV\<close>; the test is the regular expression \<^verbatim>\<open>/[",\n]/\<close>: double quote, comma
  (\<open>0x2C\<close>), line feed (\<open>0x0A\<close>).
\<close>

definition escapeCSV :: "jsString \<Rightarrow> jsString" where
  "escapeCSV s =
     (if \<exists>c\<in>set s. c = 0x22 \<or> c = 0x2C \<or> c = 0x0A
      then [0x22] @ doubleQuotes s @ [0x22]
      else s)"

text \<open>
  The fields of one line. \<open>toISOString\<close> gives the ISO-8601 text of a timestamp, which is
  what the record holds in the program.
\<close>

definition csvFields :: "(int \<Rightarrow> jsString) \<Rightarrow> visitRecord \<Rightarrow> jsString list" where
  "csvFields toISOString r =
     [escapeCSV (firstName r),
      escapeCSV (lastName r),
      escapeCSV (agency r),
      escapeCSV (reason r),
      escapeCSV (otherDetails r),
      escapeCSV (toISOString (signInAt r)),
      escapeCSV (case signOutAt r of None \<Rightarrow> [] | Some t \<Rightarrow> toISOString t),
      escapeCSV (if autoSignedOut r then js ''YES'' else js ''NO'')]"

text \<open>The loop \<^verbatim>\<open>for (const r of records) lines.push(...)\<close>.\<close>

fun csvLoop ::
  "(int \<Rightarrow> jsString) \<Rightarrow> jsString list \<Rightarrow> visitRecord list \<Rightarrow> jsString list" where
  "csvLoop toISOString lines [] = lines"
| "csvLoop toISOString lines (r # rs) =
     csvLoop toISOString (lines @ [join (js '','') (csvFields toISOString r)]) rs"

definition toCSV :: "(int \<Rightarrow> jsString) \<Rightarrow> visitRecord list \<Rightarrow> jsString" where
  "toCSV toISOString records =
     join [0x0A] (csvLoop toISOString [join (js '','') header] records)"

subsection \<open>The specification's wording\<close>

text \<open>
  Trimming in the words of the specification, written without \<open>trim\<close>: the leading white
  space goes, and so does the trailing white space.
\<close>

fun dropLeading :: "jsString \<Rightarrow> jsString" where
  "dropLeading [] = []"
| "dropLeading (c # cs) = (if isSpace c then dropLeading cs else c # cs)"

fun dropTrailing :: "jsString \<Rightarrow> jsString" where
  "dropTrailing [] = []"
| "dropTrailing (c # cs) =
     (if isSpace c \<and> dropTrailing cs = [] then [] else c # dropTrailing cs)"

definition trimSpec :: "jsString \<Rightarrow> jsString" where
  "trimSpec s = dropTrailing (dropLeading s)"

text \<open>Every run of white space becomes one space.\<close>

function collapseRuns :: "jsString \<Rightarrow> jsString" where
  "collapseRuns [] = []"
| "collapseRuns (c # cs) =
     (if isSpace c then 0x20 # collapseRuns (dropWhile isSpace cs)
      else c # collapseRuns cs)"
  by pat_completeness auto
termination
  by (relation "measure length") (auto simp: length_dropWhile_le less_Suc_eq_le)

text \<open>The normaliser: trim, lower-case, collapse the runs.\<close>

definition normalizeSpec :: "(jsString \<Rightarrow> jsString) \<Rightarrow> jsString \<Rightarrow> jsString" where
  "normalizeSpec toLowerCase s = collapseRuns (toLowerCase (trimSpec s))"

text \<open>
  The automatic sign-out in the words of the specification: an open record whose deadline
  \<open>signInAt + 8 h\<close> has been reached is closed at the deadline; any other record stays.
\<close>

definition due :: "int \<Rightarrow> visitRecord \<Rightarrow> bool" where
  "due now r \<longleftrightarrow> signOutAt r = None \<and> now \<ge> signInAt r + 8 * 60 * 60 * 1000"

definition closeIfDue :: "int \<Rightarrow> visitRecord \<Rightarrow> visitRecord" where
  "closeIfDue now r =
     (if due now r
      then r\<lparr>signOutAt := Some (signInAt r + 8 * 60 * 60 * 1000), autoSignedOut := True\<rparr>
      else r)"

text \<open>
  The filter of the record listing: \<open>q\<close> occurs in \<open>s\<close> when case is ignored, that is, the
  lower-cased \<open>q\<close> is a contiguous part of the lower-cased \<open>s\<close>.
\<close>

definition caseInsensitiveSubstring ::
  "(jsString \<Rightarrow> jsString) \<Rightarrow> jsString \<Rightarrow> jsString \<Rightarrow> bool" where
  "caseInsensitiveSubstring toLowerCase q s \<longleftrightarrow> sublist (toLowerCase q) (toLowerCase s)"

text \<open>
  The CSV text in the words of the specification: the header line, a field that is quoted
  when it holds a comma, a double quote or a line feed, and the line of a record.
\<close>

definition headerLine :: jsString where
  "headerLine =
     js ''first_name,last_name,agency_institution,reason,other_details,sign_in,sign_out,auto_signed_out''"

definition needsQuoting :: "jsString \<Rightarrow> bool" where
  "needsQuoting s \<longleftrightarrow> 0x2C \<in> set s \<or> 0x22 \<in> set s \<or> 0x0A \<in> set s"

definition quoted :: "jsString \<Rightarrow> jsString" where
  "quoted s = [0x22] @ concat (map (\<lambda>c. if c = 0x22 then [0x22, 0x22] else [c]) s) @ [0x22]"

definition fieldSpec :: "jsString \<Rightarrow> jsString" where
  "fieldSpec s = (if needsQuoting s then quoted s else s)"

definition rowSpec :: "(int \<Rightarrow> jsString) \<Rightarrow> visitRecord \<Rightarrow> jsString" where
  "rowSpec toISOString r =
     fieldSpec (firstName r) @ js '','' @ fieldSpec (lastName r) @ js '','' @
     fieldSpec (agency r) @ js '','' @ fieldSpec (reason r) @ js '','' @
     fieldSpec (otherDetails r) @ js '','' @ fieldSpec (toISOString (signInAt r)) @ js '','' @
     fieldSpec (case signOutAt r of None \<Rightarrow> [] | Some t \<Rightarrow> toISOString t) @ js '','' @
     (if autoSignedOut r then js ''YES'' else js ''NO'')"

subsection \<open>Example data\<close>

text \<open>
  \<^verbatim>\<open>toLowerCase\<close> on strings of Basic Latin and Latin-1 code units, for the examples:
  \<^verbatim>\<open>A-Z\<close> and the capital letters U+00C0 to U+00DE (U+00D7 is the multiplication sign)
  move up by \<open>0x20\<close>.
\<close>

definition lowerLatin :: "jsString \<Rightarrow> jsString" where
  "lowerLatin s =
     map (\<lambda>c. if (0x41 \<le> c \<and> c \<le> 0x5A) \<or> (0xC0 \<le> c \<and> c \<le> 0xDE \<and> c \<noteq> 0xD7)
               then c + 0x20 else c) s"

text \<open>
  Two open visits of the same person (the second signed in an hour after the first, with
  the name typed differently) and a closed visit of somebody else.
\<close>

definition exJane0 :: visitRecord where
  "exJane0 = \<lparr>id' = js ''a1'', firstName = js ''Jane'', lastName = js ''Doe'',
               agency = js ''Acme'', reason = js ''Meeting'', otherDetails = [], signInAt = 0,
               signOutAt = None, autoSignedOut = False, nameKey = js ''jane doe''\<rparr>"

definition exJane1 :: visitRecord where
  "exJane1 = \<lparr>id' = js ''b2'', firstName = js ''jane'', lastName = js ''doe'',
               agency = js ''Other Co'', reason = js ''Delivery'', otherDetails = [],
               signInAt = 3600000, signOutAt = None, autoSignedOut = False,
               nameKey = js ''jane doe''\<rparr>"

definition exBob :: visitRecord where
  "exBob = \<lparr>id' = js ''c3'', firstName = js ''Bob'', lastName = js ''Ray'', agency = js ''Lab'',
             reason = js ''Other'', otherDetails = js ''tour'', signInAt = 0,
             signOutAt = Some 5000, autoSignedOut = False, nameKey = js ''bob ray''\<rparr>"

definition exStore :: storage where
  "exStore = \<lparr>item = Some [exJane0, exJane1, exBob], writes = 0\<rparr>"

text \<open>The store before anything was saved, and two filled sign-in forms.\<close>

definition exEmpty :: storage where
  "exEmpty = \<lparr>item = None, writes = 0\<rparr>"

definition exFormAnn :: signInForm where
  "exFormAnn = \<lparr>firstNameValue = js '' Ann '', lastNameValue = js ''LEE'',
                 agencyValue = js ''AAMU'', reasonValue = js ''Other'',
                 otherDetailsValue = js '' campus tour''\<rparr>"

definition exFormTom :: signInForm where
  "exFormTom = \<lparr>firstNameValue = js ''Tom'', lastNameValue = js ''Fox'',
                 agencyValue = js ''City'', reasonValue = js ''Meeting'',
                 otherDetailsValue = js ''not shown''\<rparr>"

text \<open>A form whose first name is a space and a no-break space.\<close>

definition exFormBlank :: signInForm where
  "exFormBlank = \<lparr>firstNameValue = [0x20, 0xA0], lastNameValue = js ''Fox'',
                   agencyValue = js ''City'', reasonValue = js ''Meeting'',
                   otherDetailsValue = []\<rparr>"

text \<open>The example store after the automatic sign-out at eight hours or a little later.\<close>

definition exStoreClosed :: storage where
  "exStoreClosed =
     \<lparr>item = Some [exJane0\<lparr>signOutAt := Some 28800000, autoSignedOut := True\<rparr>, exJane1, exBob],
      writes = 1\<rparr>"

text \<open>
  A closed visit whose agency holds a comma and whose details hold double quotes, and
  \<^verbatim>\<open>toISOString\<close> on the instants of the examples.
\<close>

definition exQuote :: visitRecord where
  "exQuote = \<lparr>id' = js ''d4'', firstName = js ''Al'', lastName = js ''Oz'',
               agency = js ''Acme, Inc'', reason = js ''Other'',
               otherDetails = [0x22] @ js ''VIP'' @ [0x22], signInAt = 0,
               signOutAt = Some 28800000, autoSignedOut = True, nameKey = js ''al oz''\<rparr>"

definition exISO :: "int \<Rightarrow> jsString" where
  "exISO t =
     (if t = 0 then js ''1970-01-01T00:00:00.000Z''
      else if t = 5000 then js ''1970-01-01T00:00:05.000Z''
      else js ''1970-01-01T08:00:00.000Z'')"

section \<open>Properties\<close>

subsection \<open>Name normaliser\<close>

lemma join_Cons: "join sep (x # xs) = (if xs = [] then x else x @ sep @ join sep xs)"
  by (cases xs) simp_all

lemma splitSpaces_ne: "splitSpaces cur s \<noteq> []"
  by (induction cur s rule: splitSpaces.induct) auto

lemma join_splitSpaces: "join [0x20] (splitSpaces cur s) = cur @ collapseRuns s"
  by (induction cur s rule: splitSpaces.induct) (auto simp: join_Cons splitSpaces_ne)

lemma js_space: "js '' '' = [0x20]"
  by (simp add: js_def)

lemma dropWhile_all_iff: "(\<forall>x\<in>set (dropWhile P s). P x) \<longleftrightarrow> (\<forall>x\<in>set s. P x)"
proof (cases "dropWhile P s")
  case Nil
  then have "\<forall>x\<in>set s. P x" by simp
  then show ?thesis by (blast dest: set_dropWhileD)
next
  case (Cons a as)
  then have "\<not> P a" and "a \<in> set (dropWhile P s)"
    using hd_dropWhile [of P s] by auto
  then show ?thesis
    using set_dropWhileD [of a P s] by blast
qed

lemma trim_eq_Nil: "trim s = [] \<longleftrightarrow> (\<forall>c\<in>set s. isSpace c)"
  by (simp add: trim_def dropWhile_all_iff)

lemma dropLeading_eq: "dropLeading s = dropWhile isSpace s"
  by (induction s) simp_all

lemma dropTrailing_eq: "dropTrailing s = rev (dropWhile isSpace (rev s))"
proof (induction s)
  case Nil
  show ?case by simp
next
  case (Cons c cs)
  have e: "dropTrailing cs = [] \<longleftrightarrow> (\<forall>x\<in>set cs. isSpace x)"
    by (simp add: Cons.IH)
  show ?case
  proof (cases "\<forall>x\<in>set cs. isSpace x")
    case True
    then have "dropWhile isSpace (rev cs @ [c]) = dropWhile isSpace [c]"
      by (intro dropWhile_append2) simp
    with True e show ?thesis by simp
  next
    case False
    then have "dropWhile isSpace (rev cs @ [c]) = dropWhile isSpace (rev cs) @ [c]"
      by (auto simp: dropWhile_append1)
    with False e Cons.IH show ?thesis by simp
  qed
qed

lemma trim_spec: "trim s = trimSpec s"
  by (simp add: trim_def trimSpec_def dropLeading_eq dropTrailing_eq)

lemma collapseRuns_eq_Nil: "collapseRuns s = [] \<longleftrightarrow> s = []"
  by (cases s) auto

lemma normalizeName_spec: "normalizeName toLowerCase s = normalizeSpec toLowerCase s"
  by (simp add: normalizeName_def normalizeSpec_def js_space join_splitSpaces trim_spec)

lemma normalizeName_eq_Nil:
  "normalizeName toLowerCase s = [] \<longleftrightarrow> toLowerCase (trim s) = []"
  by (simp add: normalizeName_def js_space join_splitSpaces collapseRuns_eq_Nil)

text \<open>
  Claim C5. For every input string and whatever the case tables of the platform are,
  \<open>normalizeName\<close> returns the string trimmed of leading and trailing white space,
  lower-cased, with every run of white space collapsed to one space;
  \<open>makeNameKey first last\<close> is \<open>normalizeName\<close> of the two names joined by a space; the
  key is empty on empty or all-white-space input, given that lower-casing the empty
  string gives the empty string; and it is empty on no other input, given that
  lower-casing gives the empty string for the empty string only. Totality is that of the
  HOL functions, whose termination is proved above.
\<close>

theorem C5_normalizeName:
  "normalizeName toLowerCase s = normalizeSpec toLowerCase s \<and>
   makeNameKey toLowerCase a b = normalizeName toLowerCase (a @ [0x20] @ b) \<and>
   (toLowerCase [] = [] \<and> (\<forall>c\<in>set s. isSpace c) \<longrightarrow> normalizeName toLowerCase s = []) \<and>
   ((\<forall>t. toLowerCase t = [] \<longrightarrow> t = []) \<and> normalizeName toLowerCase s = [] \<longrightarrow>
      (\<forall>c\<in>set s. isSpace c))"
proof -
  have 1: "normalizeName toLowerCase s = normalizeSpec toLowerCase s"
    by (rule normalizeName_spec)
  have 2: "makeNameKey toLowerCase a b = normalizeName toLowerCase (a @ [0x20] @ b)"
    by (simp add: makeNameKey_def js_space)
  have 3: "toLowerCase [] = [] \<and> (\<forall>c\<in>set s. isSpace c) \<longrightarrow> normalizeName toLowerCase s = []"
  proof
    assume h: "toLowerCase [] = [] \<and> (\<forall>c\<in>set s. isSpace c)"
    then have "\<forall>c\<in>set s. isSpace c" by (rule conjunct2)
    then have "trim s = []" by (simp only: trim_eq_Nil)
    with h show "normalizeName toLowerCase s = []"
      by (simp add: normalizeName_eq_Nil)
  qed
  have 4: "(\<forall>t. toLowerCase t = [] \<longrightarrow> t = []) \<and> normalizeName toLowerCase s = [] \<longrightarrow>
      (\<forall>c\<in>set s. isSpace c)"
  proof
    assume h: "(\<forall>t. toLowerCase t = [] \<longrightarrow> t = []) \<and> normalizeName toLowerCase s = []"
    then have "normalizeName toLowerCase s = []" by (rule conjunct2)
    then have "toLowerCase (trim s) = []" by (simp only: normalizeName_eq_Nil)
    with h have "trim s = []" by blast
    then show "\<forall>c\<in>set s. isSpace c" by (simp only: trim_eq_Nil)
  qed
  from 1 2 3 4 show ?thesis by (intro conjI)
qed

theorem C5_normalizeName_witness:
  "normalizeName lowerLatin (js ''  Jane   DOE '') = js ''jane doe'' \<and>
   normalizeSpec lowerLatin (js ''  Jane   DOE '') = js ''jane doe'' \<and>
   normalizeName lowerLatin
     [0xA0, 0xC9, 0x4D, 0x49, 0x4C, 0x45, 0x3000, 0x09, 0xD6, 0x5A, 0xFEFF] =
     [0xE9, 0x6D, 0x69, 0x6C, 0x65, 0x20, 0xF6, 0x7A] \<and>
   normalizeSpec lowerLatin
     [0xA0, 0xC9, 0x4D, 0x49, 0x4C, 0x45, 0x3000, 0x09, 0xD6, 0x5A, 0xFEFF] =
     [0xE9, 0x6D, 0x69, 0x6C, 0x65, 0x20, 0xF6, 0x7A] \<and>
   normalizeName lowerLatin [0x85, 0x200B, 0x180E] = [0x85, 0x200B, 0x180E] \<and>
   normalizeSpec lowerLatin [0x85, 0x200B, 0x180E] = [0x85, 0x200B, 0x180E] \<and>
   normalizeName lowerLatin
     [0x09, 0x0A, 0x0B, 0x0C, 0x0D, 0x20, 0xA0, 0x1680, 0x2000, 0x2001, 0x2002, 0x2003,
      0x2004, 0x2005, 0x2006, 0x2007, 0x2008, 0x2009, 0x200A, 0x2028, 0x2029, 0x202F,
      0x205F, 0x3000, 0xFEFF] = [] \<and>
   makeNameKey lowerLatin (js ''Jane'') (js ''Doe'') = js ''jane doe''"
proof -
  let ?blank =
    "[0x09, 0x0A, 0x0B, 0x0C, 0x0D, 0x20, 0xA0, 0x1680, 0x2000, 0x2001, 0x2002, 0x2003,
      0x2004, 0x2005, 0x2006, 0x2007, 0x2008, 0x2009, 0x200A, 0x2028, 0x2029, 0x202F,
      0x205F, 0x3000, 0xFEFF] :: jsString"
  have m1: "normalizeName lowerLatin (js ''  Jane   DOE '') = js ''jane doe''"
    by (simp add: normalizeName_def trim_def lowerLatin_def isSpace_def js_def)
  have m2: "normalizeName lowerLatin
              [0xA0, 0xC9, 0x4D, 0x49, 0x4C, 0x45, 0x3000, 0x09, 0xD6, 0x5A, 0xFEFF] =
              [0xE9, 0x6D, 0x69, 0x6C, 0x65, 0x20, 0xF6, 0x7A]"
    by (simp add: normalizeName_def trim_def lowerLatin_def isSpace_def js_def)
  have m3: "normalizeName lowerLatin [0x85, 0x200B, 0x180E] = [0x85, 0x200B, 0x180E]"
    by (simp add: normalizeName_def trim_def lowerLatin_def isSpace_def js_def)
  have m4: "normalizeName lowerLatin (js ''Jane'' @ [0x20] @ js ''Doe'') = js ''jane doe''"
    by (simp add: normalizeName_def trim_def lowerLatin_def isSpace_def js_def)
  have h: "lowerLatin [] = [] \<and> (\<forall>c\<in>set ?blank. isSpace c)"
    by (simp add: lowerLatin_def isSpace_def)
  note t1 = C5_normalizeName [of lowerLatin "js ''  Jane   DOE ''" "js ''Jane''" "js ''Doe''"]
  note t2 = C5_normalizeName
    [of lowerLatin "[0xA0, 0xC9, 0x4D, 0x49, 0x4C, 0x45, 0x3000, 0x09, 0xD6, 0x5A, 0xFEFF]"]
  note t3 = C5_normalizeName [of lowerLatin "[0x85, 0x200B, 0x180E]"]
  note t4 = C5_normalizeName [of lowerLatin ?blank]
  have s1: "normalizeSpec lowerLatin (js ''  Jane   DOE '') = js ''jane doe''"
    using conjunct1 [OF t1, symmetric] m1 by (rule trans)
  have s2: "normalizeSpec lowerLatin
              [0xA0, 0xC9, 0x4D, 0x49, 0x4C, 0x45, 0x3000, 0x09, 0xD6, 0x5A, 0xFEFF] =
              [0xE9, 0x6D, 0x69, 0x6C, 0x65, 0x20, 0xF6, 0x7A]"
    using conjunct1 [OF t2, symmetric] m2 by (rule trans)
  have s3: "normalizeSpec lowerLatin [0x85, 0x200B, 0x180E] = [0x85, 0x200B, 0x180E]"
    using conjunct1 [OF t3, symmetric] m3 by (rule trans)
  have b: "normalizeName lowerLatin ?blank = []"
    using conjunct1 [OF conjunct2 [OF conjunct2 [OF t4]]] h by (rule mp)
  have k: "makeNameKey lowerLatin (js ''Jane'') (js ''Doe'') = js ''jane doe''"
    using conjunct1 [OF conjunct2 [OF t1]] m4 by (rule trans)
  from m1 s1 m2 s2 m3 s3 b k show ?thesis by (intro conjI)
qed

subsection \<open>Automatic sign-out\<close>

lemma autoSignOutLoop_eq:
  "autoSignOutLoop now rs changed = (map (closeIfDue now) rs, changed \<or> (\<exists>r\<in>set rs. due now r))"
  by (induction rs arbitrary: changed)
     (auto simp: closeIfDue_def due_def AUTO_SIGNOUT_HOURS_def Let_def)

lemma map_closeIfDue_id: "\<forall>r\<in>set rs. \<not> due now r \<Longrightarrow> map (closeIfDue now) rs = rs"
  by (induction rs) (auto simp: closeIfDue_def)

lemma ensureAutoSignOut_eq:
  "ensureAutoSignOut now st =
     (if \<exists>r\<in>set (loadLog st). due now r
      then saveLog (map (closeIfDue now) (loadLog st)) st else st)"
  by (simp add: ensureAutoSignOut_def autoSignOutLoop_eq)

lemma loadLog_saveLog [simp]: "loadLog (saveLog rs st) = rs"
  by (simp add: loadLog_def saveLog_def)

lemma loadLog_ensureAutoSignOut:
  "loadLog (ensureAutoSignOut now st) = map (closeIfDue now) (loadLog st)"
  by (simp add: ensureAutoSignOut_eq map_closeIfDue_id)


lemma closeIfDue_frame:
  "closeIfDue now r = r\<lparr>signOutAt := signOutAt (closeIfDue now r),
                           autoSignedOut := autoSignedOut (closeIfDue now r)\<rparr>"
  by (simp add: closeIfDue_def)

lemma closeIfDue_neq: "closeIfDue now r \<noteq> r \<Longrightarrow> due now r \<and> signOutAt (closeIfDue now r) \<noteq> None"
  by (simp add: closeIfDue_def split: if_splits)

lemma closeIfDue_closes: "signOutAt r = None \<and> signOutAt (closeIfDue now r) \<noteq> None \<longleftrightarrow> due now r"
  by (auto simp: closeIfDue_def due_def)

text \<open>
  Claim C2. For every store, every time \<open>now\<close> and every record \<open>r\<close> of the collection:
  if \<open>r\<close> is open and \<open>now\<close> has reached \<open>signInAt r\<close> plus eight hours, the automatic
  sign-out sets \<open>signOutAt\<close> to that deadline (not to \<open>now\<close>) and \<open>autoSignedOut\<close> to
  true; an open record whose deadline is not reached and a closed record stay as they
  are. The collection keeps its length, so the record at index \<open>i\<close> is the same visit.
\<close>

theorem C2_auto_close:
  "length (loadLog (ensureAutoSignOut now st)) = length (loadLog st) \<and>
   (i < length (loadLog st) \<longrightarrow>
      (let r = loadLog st ! i; r' = loadLog (ensureAutoSignOut now st) ! i
       in if signOutAt r = None \<and> now \<ge> signInAt r + 8 * 60 * 60 * 1000
          then r' = r\<lparr>signOutAt := Some (signInAt r + 8 * 60 * 60 * 1000),
                         autoSignedOut := True\<rparr>
          else r' = r))"
  by (simp add: loadLog_ensureAutoSignOut closeIfDue_def due_def Let_def)

theorem C2_auto_close_witness:
  "loadLog (ensureAutoSignOut 28800000 exStore) ! 0 =
     exJane0\<lparr>signOutAt := Some 28800000, autoSignedOut := True\<rparr> \<and>
   loadLog (ensureAutoSignOut 28800000 exStore) ! 1 = exJane1 \<and>
   loadLog (ensureAutoSignOut 28800000 exStore) ! 2 = exBob \<and>
   length (loadLog (ensureAutoSignOut 28800000 exStore)) = 3"
proof -
  have l: "loadLog exStore = [exJane0, exJane1, exBob]"
    by (simp add: loadLog_def exStore_def)
  show ?thesis
    using C2_auto_close [of 28800000 exStore 0] C2_auto_close [of 28800000 exStore 1]
      C2_auto_close [of 28800000 exStore 2]
    by (simp add: l Let_def exJane0_def exJane1_def exBob_def)
qed

text \<open>
  Claim C10. The automatic sign-out neither adds, removes, duplicates nor reorders
  records: the collection keeps its length and at every index the new record is the old
  one except for \<open>signOutAt\<close> and \<open>autoSignedOut\<close>; a record that differs was open with its
  deadline reached and is closed now; and the store is written (one \<^verbatim>\<open>setItem\<close>) when
  some record was closed and is left untouched otherwise.
\<close>

theorem C10_frame:
  "length (loadLog (ensureAutoSignOut now st)) = length (loadLog st) \<and>
   (i < length (loadLog st) \<longrightarrow>
      (let r = loadLog st ! i; r' = loadLog (ensureAutoSignOut now st) ! i
       in r' = r\<lparr>signOutAt := signOutAt r', autoSignedOut := autoSignedOut r'\<rparr> \<and>
          (r' \<noteq> r \<longrightarrow>
             signOutAt r = None \<and> now \<ge> signInAt r + 8 * 60 * 60 * 1000 \<and>
             signOutAt r' \<noteq> None))) \<and>
   (if \<exists>j<length (loadLog st).
         signOutAt (loadLog st ! j) = None \<and>
         signOutAt (loadLog (ensureAutoSignOut now st) ! j) \<noteq> None
    then ensureAutoSignOut now st = saveLog (loadLog (ensureAutoSignOut now st)) st
    else ensureAutoSignOut now st = st)"
proof -
  let ?old = "loadLog st" and ?new = "loadLog (ensureAutoSignOut now st)"
  have new: "?new = map (closeIfDue now) ?old"
    by (rule loadLog_ensureAutoSignOut)
  have len: "length ?new = length ?old"
    by (simp add: new)
  have frame: "i < length ?old \<longrightarrow>
      (let r = ?old ! i; r' = ?new ! i
       in r' = r\<lparr>signOutAt := signOutAt r', autoSignedOut := autoSignedOut r'\<rparr> \<and>
          (r' \<noteq> r \<longrightarrow>
             signOutAt r = None \<and> now \<ge> signInAt r + 8 * 60 * 60 * 1000 \<and>
             signOutAt r' \<noteq> None))"
  proof
    assume i: "i < length ?old"
    then have n: "?new ! i = closeIfDue now (?old ! i)"
      by (simp add: new)
    have f: "closeIfDue now (?old ! i) =
               (?old ! i)\<lparr>signOutAt := signOutAt (closeIfDue now (?old ! i)),
                            autoSignedOut := autoSignedOut (closeIfDue now (?old ! i))\<rparr>"
      by (rule closeIfDue_frame)
    have g: "closeIfDue now (?old ! i) \<noteq> ?old ! i \<longrightarrow>
               signOutAt (?old ! i) = None \<and> now \<ge> signInAt (?old ! i) + 8 * 60 * 60 * 1000 \<and>
               signOutAt (closeIfDue now (?old ! i)) \<noteq> None"
      using closeIfDue_neq [of now "?old ! i"] unfolding due_def by blast
    show "let r = ?old ! i; r' = ?new ! i
      in r' = r\<lparr>signOutAt := signOutAt r', autoSignedOut := autoSignedOut r'\<rparr> \<and>
         (r' \<noteq> r \<longrightarrow>
            signOutAt r = None \<and> now \<ge> signInAt r + 8 * 60 * 60 * 1000 \<and>
            signOutAt r' \<noteq> None)"
      unfolding Let_def n by (rule conjI [OF f g])
  qed
  have ex: "(\<exists>j<length ?old. signOutAt (?old ! j) = None \<and> signOutAt (?new ! j) \<noteq> None)
            \<longleftrightarrow> (\<exists>r\<in>set ?old. due now r)"
  proof -
    have "(signOutAt (?old ! j) = None \<and> signOutAt (?new ! j) \<noteq> None) = due now (?old ! j)"
      if "j < length ?old" for j
      using that closeIfDue_closes [of "?old ! j" now] by (simp only: new nth_map)
    then have pt: "\<And>j. j < length ?old \<Longrightarrow>
        (signOutAt (?old ! j) = None \<and> signOutAt (?new ! j) \<noteq> None) = due now (?old ! j)" .
    show ?thesis
    proof
      assume "\<exists>j<length ?old. signOutAt (?old ! j) = None \<and> signOutAt (?new ! j) \<noteq> None"
      then obtain j where j: "j < length ?old"
        and c: "signOutAt (?old ! j) = None \<and> signOutAt (?new ! j) \<noteq> None"
        by blast
      from c have "due now (?old ! j)"
        by (simp only: pt [OF j])
      moreover from j have "?old ! j \<in> set ?old"
        by (rule nth_mem)
      ultimately show "\<exists>r\<in>set ?old. due now r"
        by blast
    next
      assume "\<exists>r\<in>set ?old. due now r"
      then obtain r where r: "r \<in> set ?old" and d: "due now r"
        by blast
      from r obtain j where j: "j < length ?old" and e: "?old ! j = r"
        unfolding in_set_conv_nth by blast
      from d e have "due now (?old ! j)"
        by simp
      then have "signOutAt (?old ! j) = None \<and> signOutAt (?new ! j) \<noteq> None"
        by (simp only: pt [OF j])
      with j show "\<exists>j<length ?old. signOutAt (?old ! j) = None \<and> signOutAt (?new ! j) \<noteq> None"
        by blast
    qed
  qed
  have "if \<exists>r\<in>set ?old. due now r
        then ensureAutoSignOut now st = saveLog ?new st
        else ensureAutoSignOut now st = st"
    unfolding new by (simp add: ensureAutoSignOut_eq map_closeIfDue_id)
  then have wr: "if \<exists>j<length ?old. signOutAt (?old ! j) = None \<and> signOutAt (?new ! j) \<noteq> None
        then ensureAutoSignOut now st = saveLog ?new st
        else ensureAutoSignOut now st = st"
    unfolding ex .
  show ?thesis
    by (rule conjI [OF len conjI [OF frame wr]])
qed

theorem C10_frame_witness:
  "loadLog (ensureAutoSignOut 28800000 exStore) ! 0 =
     exJane0\<lparr>signOutAt := Some 28800000, autoSignedOut := True\<rparr> \<and>
   loadLog (ensureAutoSignOut 28800000 exStore) ! 0 \<noteq> loadLog exStore ! 0 \<and>
   signOutAt (loadLog exStore ! 0) = None \<and>
   writes (ensureAutoSignOut 28800000 exStore) = 1 \<and>
   ensureAutoSignOut 1000 exStore = exStore"
proof -
  have l: "loadLog exStore = [exJane0, exJane1, exBob]"
    by (simp add: loadLog_def exStore_def)
  have e: "loadLog (ensureAutoSignOut 28800000 exStore) =
             [exJane0\<lparr>signOutAt := Some 28800000, autoSignedOut := True\<rparr>, exJane1, exBob]"
    by (simp add: loadLog_ensureAutoSignOut l closeIfDue_def due_def exJane0_def exJane1_def
        exBob_def)
  have c: "\<exists>j<length (loadLog exStore).
             signOutAt (loadLog exStore ! j) = None \<and>
             signOutAt (loadLog (ensureAutoSignOut 28800000 exStore) ! j) \<noteq> None"
    by (rule exI [of _ 0]) (simp add: l e exJane0_def)
  have n: "\<not> (\<exists>j<length (loadLog exStore).
             signOutAt (loadLog exStore ! j) = None \<and>
             signOutAt (loadLog (ensureAutoSignOut 1000 exStore) ! j) \<noteq> None)"
  proof -
    have "loadLog (ensureAutoSignOut 1000 exStore) = loadLog exStore"
      by (simp add: loadLog_ensureAutoSignOut l closeIfDue_def due_def exJane0_def exJane1_def
          exBob_def)
    then show ?thesis by auto
  qed
  have w: "ensureAutoSignOut 28800000 exStore =
             saveLog (loadLog (ensureAutoSignOut 28800000 exStore)) exStore"
    using C10_frame [of 28800000 exStore 0] c by presburger
  have u: "ensureAutoSignOut 1000 exStore = exStore"
    using C10_frame [of 1000 exStore 0] n by presburger
  have "writes (ensureAutoSignOut 28800000 exStore) = 1"
    by (subst w) (simp add: saveLog_def exStore_def)
  with u e show ?thesis
    by (simp add: l exJane0_def)
qed

subsection \<open>Sign-out\<close>

lemma findActiveFrom_Some:
  "findActiveFrom recs k n = Some i \<Longrightarrow>
     i < n \<and> signOutAt (recs ! i) = None \<and> nameKey (recs ! i) = k \<and>
     (\<forall>j. i < j \<and> j < n \<longrightarrow> \<not> (signOutAt (recs ! j) = None \<and> nameKey (recs ! j) = k))"
proof (induction n)
  case 0
  then show ?case by simp
next
  case (Suc n)
  show ?case
  proof (cases "signOutAt (recs ! n) = None \<and> nameKey (recs ! n) = k")
    case True
    with Suc.prems have "i = n" by (simp add: Let_def)
    with True show ?thesis by auto
  next
    case False
    with Suc.prems have "findActiveFrom recs k n = Some i" by (simp add: Let_def)
    from Suc.IH [OF this] False show ?thesis
      by (metis less_Suc_eq)
  qed
qed

lemma findActiveFrom_None:
  "findActiveFrom recs k n = None \<longleftrightarrow>
     (\<forall>j<n. \<not> (signOutAt (recs ! j) = None \<and> nameKey (recs ! j) = k))"
  by (induction n) (auto simp: Let_def less_Suc_eq)

lemma findActiveFrom_exists:
  assumes "r \<in> set recs" "signOutAt r = None" "nameKey r = k"
  shows "\<exists>i. findActiveFrom recs k (length recs) = Some i"
proof -
  from assms(1) obtain j where "j < length recs" "recs ! j = r"
    unfolding in_set_conv_nth by blast
  with assms(2,3) have "findActiveFrom recs k (length recs) \<noteq> None"
    unfolding findActiveFrom_None by blast
  then show ?thesis by blast
qed

text \<open>
  Claim C1. Take a sign-out request whose normalised key is not empty and matches an
  open record of the collection as the handler sees it, that is, after the automatic
  sign-out it applies first. Then the record closed is the last one in creation order
  that is open and has that key: it gets \<open>signOutAt = tNow\<close> and
  \<open>autoSignedOut = False\<close>, the collection is saved, and every other record, so every
  earlier open record with the same key, is unchanged.
\<close>

theorem C1_sign_out_latest:
  assumes key: "normalizeName toLowerCase fullName = key" "key \<noteq> []"
    and recs: "recs = loadLog (ensureAutoSignOut tAuto st)"
    and ex: "\<exists>r\<in>set recs. signOutAt r = None \<and> nameKey r = key"
  shows "\<exists>i<length recs.
           signOutAt (recs ! i) = None \<and> nameKey (recs ! i) = key \<and>
           (\<forall>j. i < j \<and> j < length recs \<longrightarrow>
                \<not> (signOutAt (recs ! j) = None \<and> nameKey (recs ! j) = key)) \<and>
           signOutSubmit toLowerCase tAuto tNow fullName st =
             (None,
              saveLog (recs[i := (recs ! i)\<lparr>signOutAt := Some tNow, autoSignedOut := False\<rparr>])
                (ensureAutoSignOut tAuto st)) \<and>
           length (loadLog (snd (signOutSubmit toLowerCase tAuto tNow fullName st))) = length recs \<and>
           (\<forall>j<length recs. j \<noteq> i \<longrightarrow>
                loadLog (snd (signOutSubmit toLowerCase tAuto tNow fullName st)) ! j = recs ! j)"
proof -
  from ex obtain r where "r \<in> set recs" "signOutAt r = None" "nameKey r = key"
    by blast
  then obtain i where f: "findActiveFrom recs key (length recs) = Some i"
    using findActiveFrom_exists by blast
  note p = findActiveFrom_Some [OF f]
  have s: "signOutSubmit toLowerCase tAuto tNow fullName st =
             (None,
              saveLog (recs[i := (recs ! i)\<lparr>signOutAt := Some tNow, autoSignedOut := False\<rparr>])
                (ensureAutoSignOut tAuto st))"
    using key f by (simp add: signOutSubmit_def findActiveByNameKey_def recs [symmetric] Let_def)
  have l: "length (loadLog (snd (signOutSubmit toLowerCase tAuto tNow fullName st))) = length recs"
    by (simp add: s loadLog_def saveLog_def)
  have o: "\<forall>j<length recs. j \<noteq> i \<longrightarrow>
             loadLog (snd (signOutSubmit toLowerCase tAuto tNow fullName st)) ! j = recs ! j"
    by (simp add: s loadLog_def saveLog_def)
  from p s l o show ?thesis by blast
qed


theorem C1_sign_out_latest_witness:
  "signOutSubmit lowerLatin 7200000 7200001 (js ''Jane  DOE '') exStore =
     (None,
      \<lparr>item = Some [exJane0, exJane1\<lparr>signOutAt := Some 7200001, autoSignedOut := False\<rparr>, exBob],
       writes = 1\<rparr>)"
proof -
  let ?recs = "[exJane0, exJane1, exBob]"
  have k: "normalizeName lowerLatin (js ''Jane  DOE '') = js ''jane doe''"
    by (simp add: normalizeName_def trim_def lowerLatin_def isSpace_def js_def)
  have l: "loadLog exStore = ?recs"
    by (simp add: loadLog_def exStore_def)
  have e: "ensureAutoSignOut 7200000 exStore = exStore"
    by (simp add: ensureAutoSignOut_eq l due_def exJane0_def exJane1_def exBob_def)
  have r: "?recs = loadLog (ensureAutoSignOut 7200000 exStore)"
    by (simp add: e l)
  have n: "js ''jane doe'' \<noteq> []"
    by (simp add: js_def)
  have x: "\<exists>r\<in>set ?recs. signOutAt r = None \<and> nameKey r = js ''jane doe''"
    by (simp add: exJane0_def)
  from C1_sign_out_latest [OF k n r x, of 7200001]
  obtain i where i: "i < length ?recs"
    and a: "signOutAt (?recs ! i) = None"
    and b: "\<forall>j. i < j \<and> j < length ?recs \<longrightarrow>
              \<not> (signOutAt (?recs ! j) = None \<and> nameKey (?recs ! j) = js ''jane doe'')"
    and c: "signOutSubmit lowerLatin 7200000 7200001 (js ''Jane  DOE '') exStore =
             (None,
              saveLog (?recs[i := (?recs ! i)\<lparr>signOutAt := Some 7200001, autoSignedOut := False\<rparr>])
                (ensureAutoSignOut 7200000 exStore))"
    by blast
  have "i \<noteq> 2"
    using a by (auto simp: exBob_def)
  moreover have "i \<noteq> 0"
    using b [rule_format, of 1] by (auto simp: exJane1_def)
  ultimately have "i = 1"
    using i by simp
  with c have "signOutSubmit lowerLatin 7200000 7200001 (js ''Jane  DOE '') exStore =
      (None,
       saveLog (?recs[1 := (?recs ! 1)\<lparr>signOutAt := Some 7200001, autoSignedOut := False\<rparr>])
         exStore)"
    by (simp only: e)
  then show ?thesis
    by (simp add: saveLog_def exStore_def)
qed

subsection \<open>Closed records\<close>

lemma length_ensureAutoSignOut:
  "length (loadLog (ensureAutoSignOut now st)) = length (loadLog st)"
  by (simp add: loadLog_ensureAutoSignOut)

lemma closeIfDue_closed: "signOutAt r \<noteq> None \<Longrightarrow> closeIfDue now r = r"
  by (auto simp: closeIfDue_def due_def)

lemma ensureAutoSignOut_keeps_closed:
  assumes "i < length (loadLog st)" "signOutAt (loadLog st ! i) \<noteq> None"
  shows "loadLog (ensureAutoSignOut now st) ! i = loadLog st ! i"
proof -
  have "loadLog (ensureAutoSignOut now st) ! i = closeIfDue now (loadLog st ! i)"
    using assms(1) by (simp add: loadLog_ensureAutoSignOut)
  also have "\<dots> = loadLog st ! i"
    using assms(2) by (rule closeIfDue_closed)
  finally show ?thesis .
qed

lemma signInSubmit_keeps:
  "i < length (loadLog st) \<Longrightarrow>
     i < length (loadLog (snd (signInSubmit toLowerCase u tId tNow form st))) \<and>
     loadLog (snd (signInSubmit toLowerCase u tId tNow form st)) ! i = loadLog st ! i"
  by (simp add: signInSubmit_def Let_def nth_append)

lemma findActiveByNameKey_Some:
  assumes "findActiveByNameKey key st = Some (recs, i)"
  shows "recs = loadLog st \<and> i < length recs \<and> signOutAt (recs ! i) = None \<and>
         nameKey (recs ! i) = key"
proof -
  from assms have r: "recs = loadLog st"
    and f: "findActiveFrom (loadLog st) key (length (loadLog st)) = Some i"
    by (auto simp: findActiveByNameKey_def Let_def split: option.splits)
  from findActiveFrom_Some [OF f] r show ?thesis by simp
qed

lemma signOutSubmit_keeps_closed:
  assumes "i < length (loadLog st)" "signOutAt (loadLog st ! i) \<noteq> None"
  shows "i < length (loadLog (snd (signOutSubmit toLowerCase tAuto tNow fullName st))) \<and>
         loadLog (snd (signOutSubmit toLowerCase tAuto tNow fullName st)) ! i = loadLog st ! i"
proof -
  let ?st1 = "ensureAutoSignOut tAuto st"
  have k: "loadLog ?st1 ! i = loadLog st ! i"
    using assms by (rule ensureAutoSignOut_keeps_closed)
  have l: "i < length (loadLog ?st1)"
    using assms(1) by (simp add: length_ensureAutoSignOut)
  show ?thesis
  proof (cases "normalizeName toLowerCase fullName = []")
    case True
    then show ?thesis using k l by (simp add: signOutSubmit_def)
  next
    case False
    show ?thesis
    proof (cases "findActiveByNameKey (normalizeName toLowerCase fullName) ?st1")
      case None
      with False show ?thesis using k l by (simp add: signOutSubmit_def)
    next
      case (Some p)
      obtain recs j where p: "p = (recs, j)" by (cases p)
      note f = findActiveByNameKey_Some [OF Some [unfolded p]]
      from f have r: "recs = loadLog ?st1" by blast
      from f have o: "signOutAt (loadLog ?st1 ! j) = None" unfolding r by blast
      from o k assms(2) have "j \<noteq> i" by auto
      with False Some p r k l show ?thesis
        by (simp add: signOutSubmit_def Let_def)
    qed
  qed
qed

lemma snd_render: "snd (render toLowerCase now searchValue st) = ensureAutoSignOut now st"
  by (simp add: render_def Let_def)

lemma exec_keeps_closed:
  assumes "op \<noteq> ClearAll" "i < length (loadLog st)" "signOutAt (loadLog st ! i) \<noteq> None"
  shows "i < length (loadLog (exec toLowerCase op st)) \<and>
         loadLog (exec toLowerCase op st) ! i = loadLog st ! i"
proof (cases op)
  case (InitPage now)
  with assms(2,3) show ?thesis
    by (simp add: ensureAutoSignOut_keeps_closed length_ensureAutoSignOut)
next
  case (SignInSubmit u tId tNow form)
  with assms(2) show ?thesis by (simp add: signInSubmit_keeps)
next
  case (SignOutSubmit tAuto tNow fullName)
  with assms(2,3) show ?thesis by (simp add: signOutSubmit_keeps_closed)
next
  case (Render now v)
  with assms(2,3) show ?thesis
    by (simp add: snd_render ensureAutoSignOut_keeps_closed length_ensureAutoSignOut)
next
  case ClearAll
  with assms(1) show ?thesis by simp
qed

lemma run_keeps_closed:
  "ClearAll \<notin> set ops \<Longrightarrow> i < length (loadLog st) \<Longrightarrow> signOutAt (loadLog st ! i) \<noteq> None \<Longrightarrow>
     i < length (loadLog (fold (exec toLowerCase) ops st)) \<and>
     loadLog (fold (exec toLowerCase) ops st) ! i = loadLog st ! i"
proof (induction ops arbitrary: st)
  case Nil
  then show ?case by simp
next
  case (Cons op ops)
  from Cons.prems(1) have n: "op \<noteq> ClearAll" and m: "ClearAll \<notin> set ops" by auto
  note s = exec_keeps_closed [OF n Cons.prems(2,3), of toLowerCase]
  from s Cons.prems(3) have c: "signOutAt (loadLog (exec toLowerCase op st) ! i) \<noteq> None"
    by simp
  from Cons.IH [OF m conjunct1 [OF s] c] s show ?case by simp
qed

text \<open>
  Claim C7. Closing is terminal. Take a record that is closed, at index \<open>i\<close> of the
  collection, and any sequence of page initialisations, sign-in and sign-out
  submissions and renderings (clearing the collection ends the life of every record).
  After it the record is still at index \<open>i\<close> and is the same in every field, so its
  \<open>signOutAt\<close> and \<open>autoSignedOut\<close> were not set again; the sign-out lookup does not
  select it for any key, and a further automatic sign-out at any time leaves it as it is.
\<close>

theorem C7_closing_terminal:
  assumes "ClearAll \<notin> set ops"
    and "i < length (loadLog st)"
    and "signOutAt (loadLog st ! i) \<noteq> None"
  shows "i < length (loadLog (fold (exec toLowerCase) ops st)) \<and>
         loadLog (fold (exec toLowerCase) ops st) ! i = loadLog st ! i \<and>
         (\<forall>key recs. findActiveByNameKey key (fold (exec toLowerCase) ops st) \<noteq> Some (recs, i)) \<and>
         (\<forall>now. loadLog (ensureAutoSignOut now (fold (exec toLowerCase) ops st)) ! i =
                 loadLog st ! i)"
proof -
  let ?st' = "fold (exec toLowerCase) ops st"
  note k = run_keeps_closed [OF assms, of toLowerCase]
  from k assms(3) have c: "signOutAt (loadLog ?st' ! i) \<noteq> None" by simp
  have a: "\<forall>key recs. findActiveByNameKey key ?st' \<noteq> Some (recs, i)"
  proof (intro allI notI)
    fix key recs assume "findActiveByNameKey key ?st' = Some (recs, i)"
    from findActiveByNameKey_Some [OF this] c show False by auto
  qed
  have b: "\<forall>now. loadLog (ensureAutoSignOut now ?st') ! i = loadLog st ! i"
    using ensureAutoSignOut_keeps_closed [OF conjunct1 [OF k] c] k by simp
  from k a b show ?thesis by blast
qed

theorem C7_closing_terminal_witness:
  "signOutAt exBob = Some 5000 \<and>
   loadLog (fold (exec lowerLatin)
              [InitPage 40000000, SignOutSubmit 40000000 40000001 (js ''Bob Ray''),
               SignInSubmit None 40000002 40000002 exFormTom,
               Render 80000000 [], SignOutSubmit 80000001 80000002 (js ''bob ray'')]
              exStore) ! 2 = exBob"
proof -
  have l: "loadLog exStore = [exJane0, exJane1, exBob]"
    by (simp add: loadLog_def exStore_def)
  have c: "signOutAt (loadLog exStore ! 2) \<noteq> None"
    by (simp add: l exBob_def)
  have i: "2 < length (loadLog exStore)"
    by (simp add: l)
  have n: "ClearAll \<notin> set [InitPage 40000000, SignOutSubmit 40000000 40000001 (js ''Bob Ray''),
               SignInSubmit None 40000002 40000002 exFormTom,
               Render 80000000 [], SignOutSubmit 80000001 80000002 (js ''bob ray'')]"
    by simp
  have "loadLog (fold (exec lowerLatin)
              [InitPage 40000000, SignOutSubmit 40000000 40000001 (js ''Bob Ray''),
               SignInSubmit None 40000002 40000002 exFormTom,
               Render 80000000 [], SignOutSubmit 80000001 80000002 (js ''bob ray'')]
              exStore) ! 2 = loadLog exStore ! 2"
    using C7_closing_terminal [OF n i c, of lowerLatin] by (rule conjunct1 [OF conjunct2])
  moreover have "loadLog exStore ! 2 = exBob"
    by (simp add: l)
  moreover have "signOutAt exBob = Some 5000"
    by (simp add: exBob_def)
  ultimately show ?thesis by simp
qed

subsection \<open>The examples, evaluated\<close>

lemma loadLog_exStore: "loadLog exStore = [exJane0, exJane1, exBob]"
  by (simp add: loadLog_def exStore_def)

lemma ensureAutoSignOut_exStore_early: "ensureAutoSignOut 1000 exStore = exStore"
  by (simp add: ensureAutoSignOut_eq loadLog_exStore due_def exJane0_def exJane1_def exBob_def)

lemma ensureAutoSignOut_exStore_late: "ensureAutoSignOut 28800000 exStore = exStoreClosed"
proof -
  have d: "\<exists>r\<in>set (loadLog exStore). due 28800000 r"
    by (simp add: loadLog_exStore due_def exJane0_def)
  have m: "map (closeIfDue 28800000) (loadLog exStore) =
             [exJane0\<lparr>signOutAt := Some 28800000, autoSignedOut := True\<rparr>, exJane1, exBob]"
    by (simp add: loadLog_exStore closeIfDue_def due_def exJane0_def exJane1_def exBob_def)
  have "ensureAutoSignOut 28800000 exStore =
          saveLog (map (closeIfDue 28800000) (loadLog exStore)) exStore"
    by (simp only: ensureAutoSignOut_eq d if_True)
  also have "\<dots> = exStoreClosed"
    unfolding m by (simp add: saveLog_def exStore_def exStoreClosed_def)
  finally show ?thesis .
qed

lemma normalizeName_nobody: "normalizeName lowerLatin (js ''Nobody Here'') = js ''nobody here''"
  by (simp add: normalizeName_def trim_def lowerLatin_def isSpace_def js_def)

lemma normalizeName_blank: "normalizeName lowerLatin (js ''  '') = []"
  by (simp add: normalizeName_def trim_def lowerLatin_def isSpace_def js_def)

lemma exFormTom_valid:
  "trim (firstNameValue exFormTom) \<noteq> []" "trim (lastNameValue exFormTom) \<noteq> []"
  "trim (agencyValue exFormTom) \<noteq> []"
  "reasonValue exFormTom = js ''Other'' \<longrightarrow> trim (otherDetailsValue exFormTom) \<noteq> []"
  by (simp_all add: exFormTom_def trim_def isSpace_def js_def)

lemma lowerLatin_Nil: "lowerLatin t = [] \<longleftrightarrow> t = []"
  by (simp add: lowerLatin_def)

subsection \<open>Sign-in\<close>

lemma signInSubmit_invalid:
  "trim (firstNameValue form) = [] \<or> trim (lastNameValue form) = [] \<or>
   trim (agencyValue form) = [] \<or>
   (reasonValue form = js ''Other'' \<and> trim (otherDetailsValue form) = []) \<Longrightarrow>
     signInSubmit toLowerCase u tId tNow form st = (Some ValidationError, st)"
  by (auto simp: signInSubmit_def Let_def)

lemma signInSubmit_valid:
  assumes "trim (firstNameValue form) \<noteq> []" "trim (lastNameValue form) \<noteq> []"
    and "trim (agencyValue form) \<noteq> []"
    and "reasonValue form = js ''Other'' \<longrightarrow> trim (otherDetailsValue form) \<noteq> []"
  shows "signInSubmit toLowerCase u tId tNow form st =
           (None,
            saveLog
              (loadLog st @
               [\<lparr>id' = newId u tId,
                 firstName = trim (firstNameValue form),
                 lastName = trim (lastNameValue form),
                 agency = trim (agencyValue form),
                 reason = reasonValue form,
                 otherDetails =
                   (if reasonValue form = js ''Other'' then trim (otherDetailsValue form) else []),
                 signInAt = tNow,
                 signOutAt = None,
                 autoSignedOut = False,
                 nameKey =
                   makeNameKey toLowerCase (trim (firstNameValue form))
                     (trim (lastNameValue form))\<rparr>])
              st)"
  using assms by (simp add: signInSubmit_def Let_def)

lemma signInSubmit_prefix:
  "take (length (loadLog st)) (loadLog (snd (signInSubmit toLowerCase u tId tNow form st))) =
     loadLog st"
  by (simp add: signInSubmit_def Let_def)

text \<open>
  Claim C3, amended. For every successful sign-in (first name, last name and agency not
  empty after trimming, and other details not empty after trimming when the reason is
  \<^verbatim>\<open>Other\<close>) the handler saves the collection with one record appended at the end and
  every prior record unchanged. The new record has the id that \<^verbatim>\<open>crypto.randomUUID()\<close>
  returns where the browser has it, and otherwise the decimal numeral of the millisecond
  clock; \<open>nameKey\<close> is \<open>normalizeName\<close> of the trimmed first and last name joined by a
  space; \<open>signInAt\<close> is the time of the submission, \<open>signOutAt\<close> is empty and
  \<open>autoSignedOut\<close> is false; first name, last name and agency are the trimmed inputs;
  \<open>otherDetails\<close> is not empty exactly when the reason is \<^verbatim>\<open>Other\<close>. The ids of the
  collection stay pairwise distinct when the new id is not the id of a stored record,
  which the handler does not check.
\<close>

theorem C3_sign_in_record:
  assumes "trim (firstNameValue form) \<noteq> []" "trim (lastNameValue form) \<noteq> []"
    and "trim (agencyValue form) \<noteq> []"
    and "reasonValue form = js ''Other'' \<longrightarrow> trim (otherDetailsValue form) \<noteq> []"
    and "r = last (loadLog (snd (signInSubmit toLowerCase randomUUID tId tNow form st)))"
  shows "signInSubmit toLowerCase randomUUID tId tNow form st =
           (None, saveLog (loadLog st @ [r]) st) \<and>
         id' r = (case randomUUID of Some u \<Rightarrow> u | None \<Rightarrow> numberToString tId) \<and>
         nameKey r =
           normalizeName toLowerCase
             (trim (firstNameValue form) @ [0x20] @ trim (lastNameValue form)) \<and>
         signInAt r = tNow \<and> signOutAt r = None \<and> autoSignedOut r = False \<and>
         firstName r = trim (firstNameValue form) \<and>
         lastName r = trim (lastNameValue form) \<and>
         agency r = trim (agencyValue form) \<and>
         reason r = reasonValue form \<and>
         otherDetails r =
           (if reasonValue form = js ''Other'' then trim (otherDetailsValue form) else []) \<and>
         (otherDetails r \<noteq> [] \<longleftrightarrow> reasonValue form = js ''Other'') \<and>
         (distinct (map id' (loadLog st)) \<and> id' r \<notin> set (map id' (loadLog st)) \<longrightarrow>
            distinct (map id' (loadLog (snd (signInSubmit toLowerCase randomUUID tId tNow form st)))))"
proof -
  note v = signInSubmit_valid [OF assms(1-4), of toLowerCase randomUUID tId tNow st]
  have l: "loadLog (snd (signInSubmit toLowerCase randomUUID tId tNow form st)) =
             loadLog st @ [r]"
    unfolding assms(5) by (simp add: v)
  have r: "r = \<lparr>id' = newId randomUUID tId,
                 firstName = trim (firstNameValue form),
                 lastName = trim (lastNameValue form),
                 agency = trim (agencyValue form),
                 reason = reasonValue form,
                 otherDetails =
                   (if reasonValue form = js ''Other'' then trim (otherDetailsValue form) else []),
                 signInAt = tNow,
                 signOutAt = None,
                 autoSignedOut = False,
                 nameKey =
                   makeNameKey toLowerCase (trim (firstNameValue form))
                     (trim (lastNameValue form))\<rparr>"
    unfolding assms(5) by (simp add: v)
  have 1: "signInSubmit toLowerCase randomUUID tId tNow form st =
             (None, saveLog (loadLog st @ [r]) st)"
    unfolding r by (rule v)
  have 2: "id' r = (case randomUUID of Some u \<Rightarrow> u | None \<Rightarrow> numberToString tId)"
    by (simp add: r newId_def)
  have 3: "nameKey r =
           normalizeName toLowerCase
             (trim (firstNameValue form) @ [0x20] @ trim (lastNameValue form))"
    by (simp add: r makeNameKey_def js_space)
  have 4: "signInAt r = tNow \<and> signOutAt r = None \<and> autoSignedOut r = False \<and>
         firstName r = trim (firstNameValue form) \<and>
         lastName r = trim (lastNameValue form) \<and>
         agency r = trim (agencyValue form) \<and>
         reason r = reasonValue form \<and>
         otherDetails r =
           (if reasonValue form = js ''Other'' then trim (otherDetailsValue form) else [])"
    by (simp add: r)
  have 5: "otherDetails r \<noteq> [] \<longleftrightarrow> reasonValue form = js ''Other''"
    using assms(4) by (simp add: r)
  have 6: "distinct (map id' (loadLog st)) \<and> id' r \<notin> set (map id' (loadLog st)) \<longrightarrow>
            distinct (map id' (loadLog (snd (signInSubmit toLowerCase randomUUID tId tNow form st))))"
    unfolding l by simp
  from 1 2 3 4 5 6 show ?thesis by blast
qed

theorem C3_sign_in_record_witness:
  "signInSubmit lowerLatin (Some (js ''u-7'')) 9000 9001 exFormAnn exStore =
     (None,
      \<lparr>item = Some [exJane0, exJane1, exBob,
                    \<lparr>id' = js ''u-7'', firstName = js ''Ann'', lastName = js ''LEE'',
                     agency = js ''AAMU'', reason = js ''Other'',
                     otherDetails = js ''campus tour'', signInAt = 9001, signOutAt = None,
                     autoSignedOut = False, nameKey = js ''ann lee''\<rparr>],
       writes = 1\<rparr>) \<and>
   fst (signInSubmit lowerLatin (Some (js ''u-7'')) 9000 9001 exFormAnn exStore) = None \<and>
   loadLog (snd (signInSubmit lowerLatin (Some (js ''u-7'')) 9000 9001 exFormAnn exStore)) =
     [exJane0, exJane1, exBob,
      last (loadLog (snd (signInSubmit lowerLatin (Some (js ''u-7'')) 9000 9001 exFormAnn exStore)))] \<and>
   id' (last (loadLog (snd (signInSubmit lowerLatin (Some (js ''u-7'')) 9000 9001 exFormAnn exStore)))) =
     js ''u-7'' \<and>
   nameKey (last (loadLog (snd (signInSubmit lowerLatin (Some (js ''u-7'')) 9000 9001 exFormAnn exStore)))) =
     js ''ann lee'' \<and>
   firstName (last (loadLog (snd (signInSubmit lowerLatin (Some (js ''u-7'')) 9000 9001 exFormAnn exStore)))) =
     js ''Ann'' \<and>
   otherDetails (last (loadLog (snd (signInSubmit lowerLatin (Some (js ''u-7'')) 9000 9001 exFormAnn exStore)))) =
     js ''campus tour'' \<and>
   signInAt (last (loadLog (snd (signInSubmit lowerLatin (Some (js ''u-7'')) 9000 9001 exFormAnn exStore)))) =
     9001"
proof -
  let ?r = "last (loadLog (snd (signInSubmit lowerLatin (Some (js ''u-7'')) 9000 9001 exFormAnn exStore)))"
  have f: "trim (firstNameValue exFormAnn) = js ''Ann''"
    by (simp add: exFormAnn_def trim_def isSpace_def js_def)
  have l: "trim (lastNameValue exFormAnn) = js ''LEE''"
    by (simp add: exFormAnn_def trim_def isSpace_def js_def)
  have a: "trim (agencyValue exFormAnn) = js ''AAMU''"
    by (simp add: exFormAnn_def trim_def isSpace_def js_def)
  have d: "trim (otherDetailsValue exFormAnn) = js ''campus tour''"
    by (simp add: exFormAnn_def trim_def isSpace_def js_def)
  have o: "reasonValue exFormAnn = js ''Other''"
    by (simp add: exFormAnn_def)
  have k: "normalizeName lowerLatin (js ''Ann'' @ [0x20] @ js ''LEE'') = js ''ann lee''"
    by (simp add: normalizeName_def trim_def lowerLatin_def isSpace_def js_def)
  have 1: "trim (firstNameValue exFormAnn) \<noteq> []"
    by (simp add: f js_def)
  have 2: "trim (lastNameValue exFormAnn) \<noteq> []"
    by (simp add: l js_def)
  have 3: "trim (agencyValue exFormAnn) \<noteq> []"
    by (simp add: a js_def)
  have 4: "reasonValue exFormAnn = js ''Other'' \<longrightarrow> trim (otherDetailsValue exFormAnn) \<noteq> []"
    by (simp add: d js_def)
  note t = C3_sign_in_record [OF 1 2 3 4 refl, of lowerLatin "Some (js ''u-7'')" 9000 9001 exStore]
  from t have s: "signInSubmit lowerLatin (Some (js ''u-7'')) 9000 9001 exFormAnn exStore =
      (None, saveLog (loadLog exStore @ [?r]) exStore)"
    by (rule conjunct1)
  have e: "loadLog exStore = [exJane0, exJane1, exBob]"
    by (simp add: loadLog_def exStore_def)
  have c1: "fst (signInSubmit lowerLatin (Some (js ''u-7'')) 9000 9001 exFormAnn exStore) = None"
    by (subst s) simp
  have c2: "loadLog (snd (signInSubmit lowerLatin (Some (js ''u-7'')) 9000 9001 exFormAnn exStore)) =
      [exJane0, exJane1, exBob, ?r]"
    by (subst s) (simp add: e)
  note t2 = conjunct2 [OF t]
  note t3 = conjunct2 [OF t2]
  note t4 = conjunct2 [OF t3]
  note t7 = conjunct2 [OF conjunct2 [OF conjunct2 [OF t4]]]
  note t11 = conjunct2 [OF conjunct2 [OF conjunct2 [OF conjunct2 [OF t7]]]]
  have c3: "id' ?r = js ''u-7''"
    using conjunct1 [OF t2] by simp
  have c4: "nameKey ?r = js ''ann lee''"
    using conjunct1 [OF t3] by (simp only: f l k)
  have c5: "firstName ?r = js ''Ann''"
    using conjunct1 [OF t7] by (simp only: f)
  have c6: "otherDetails ?r = js ''campus tour''"
    using conjunct1 [OF t11] by (simp only: o d refl if_True)
  have c7: "signInAt ?r = 9001"
    by (rule conjunct1 [OF t4])
  have c0: "signInSubmit lowerLatin (Some (js ''u-7'')) 9000 9001 exFormAnn exStore =
     (None,
      \<lparr>item = Some [exJane0, exJane1, exBob,
                    \<lparr>id' = js ''u-7'', firstName = js ''Ann'', lastName = js ''LEE'',
                     agency = js ''AAMU'', reason = js ''Other'',
                     otherDetails = js ''campus tour'', signInAt = 9001, signOutAt = None,
                     autoSignedOut = False, nameKey = js ''ann lee''\<rparr>],
       writes = 1\<rparr>)"
  proof -
    have mk: "makeNameKey lowerLatin (js ''Ann'') (js ''LEE'') = js ''ann lee''"
      by (simp add: makeNameKey_def normalizeName_def trim_def lowerLatin_def isSpace_def js_def)
    show ?thesis
      unfolding signInSubmit_valid [OF 1 2 3 4] f l a d o e mk
      by (simp add: newId_def saveLog_def exStore_def)
  qed
  from c0 c1 c2 c3 c4 c5 c6 c7 show ?thesis by (intro conjI)
qed

theorem C3_id_not_fresh_counterexample:
  "fst (signInSubmit lowerLatin None 1000 1000 exFormAnn exEmpty) = None \<and>
   fst (signInSubmit lowerLatin None 1000 1000 exFormTom
          (snd (signInSubmit lowerLatin None 1000 1000 exFormAnn exEmpty))) = None \<and>
   map id' (loadLog (snd (signInSubmit lowerLatin None 1000 1000 exFormTom
                            (snd (signInSubmit lowerLatin None 1000 1000 exFormAnn exEmpty))))) =
     [js ''1000'', js ''1000'']"
proof -
  have n: "numberToString 1000 = js ''1000''"
    by (simp add: numberToString_def digitChar_def js_def)
  have a: "trim (js '' Ann '') \<noteq> [] \<and> trim (js ''LEE'') \<noteq> [] \<and> trim (js ''AAMU'') \<noteq> [] \<and>
           trim (js '' campus tour'') \<noteq> []"
    by (simp add: trim_def isSpace_def js_def)
  have b: "trim (js ''Tom'') \<noteq> [] \<and> trim (js ''Fox'') \<noteq> [] \<and> trim (js ''City'') \<noteq> [] \<and>
           js ''Meeting'' \<noteq> js ''Other''"
    by (simp add: trim_def isSpace_def js_def)
  show ?thesis
    using a b
    by (simp add: signInSubmit_def Let_def newId_def n exFormAnn_def exFormTom_def exEmpty_def
        loadLog_def saveLog_def)
qed

subsection \<open>Failing submissions\<close>

lemma signOutSubmit_empty_key:
  "normalizeName toLowerCase fullName = [] \<Longrightarrow>
     signOutSubmit toLowerCase tAuto tNow fullName st =
       (Some ValidationError, ensureAutoSignOut tAuto st)"
  by (simp add: signOutSubmit_def Let_def)

lemma signOutSubmit_not_found:
  assumes "normalizeName toLowerCase fullName \<noteq> []"
    and "\<forall>r\<in>set (loadLog (ensureAutoSignOut tAuto st)).
           \<not> (signOutAt r = None \<and> nameKey r = normalizeName toLowerCase fullName)"
  shows "signOutSubmit toLowerCase tAuto tNow fullName st =
           (Some NotFoundError, ensureAutoSignOut tAuto st)"
proof -
  let ?recs = "loadLog (ensureAutoSignOut tAuto st)"
  have "\<forall>j<length ?recs.
          \<not> (signOutAt (?recs ! j) = None \<and>
             nameKey (?recs ! j) = normalizeName toLowerCase fullName)"
    using assms(2) nth_mem by blast
  then have "findActiveFrom ?recs (normalizeName toLowerCase fullName) (length ?recs) = None"
    by (simp only: findActiveFrom_None)
  with assms(1) show ?thesis
    by (simp add: signOutSubmit_def findActiveByNameKey_def Let_def)
qed

lemma signInSubmit_failure:
  "fst (signInSubmit toLowerCase u tId tNow form st) \<noteq> None \<Longrightarrow>
     signInSubmit toLowerCase u tId tNow form st = (Some ValidationError, st)"
  by (simp add: signInSubmit_def Let_def split: if_splits)

lemma signOutSubmit_failure:
  "fst (signOutSubmit toLowerCase tAuto tNow fullName st) \<noteq> None \<Longrightarrow>
     snd (signOutSubmit toLowerCase tAuto tNow fullName st) = ensureAutoSignOut tAuto st"
  by (simp add: signOutSubmit_def Let_def split: if_splits option.splits prod.splits)

lemma ensureAutoSignOut_none_due:
  "\<forall>r\<in>set (loadLog st). \<not> due now r \<Longrightarrow> ensureAutoSignOut now st = st"
  by (simp add: ensureAutoSignOut_eq)

text \<open>
  Claim C4, amended. A sign-in fails with \<open>ValidationError\<close> when the first name, the last
  name or the agency is empty after trimming, or when the reason is \<^verbatim>\<open>Other\<close> and the
  other details are empty after trimming, and a failing sign-in leaves the store as it
  was: nothing is created, changed or saved. A sign-out fails with \<open>ValidationError\<close> when
  the normalised key is empty and with \<open>NotFoundError\<close> when no open record has the key;
  a failing sign-out creates no record and leaves the store exactly as the automatic
  sign-out leaves it, which the handler runs before it reads the name: unchanged when no
  open record has reached its deadline.
\<close>

theorem C4_failures:
  "(trim (firstNameValue form) = [] \<or> trim (lastNameValue form) = [] \<or>
    trim (agencyValue form) = [] \<or>
    (reasonValue form = js ''Other'' \<and> trim (otherDetailsValue form) = []) \<longrightarrow>
      signInSubmit toLowerCase u tId tNow form st = (Some ValidationError, st)) \<and>
   (fst (signInSubmit toLowerCase u tId tNow form st) \<noteq> None \<longrightarrow>
      snd (signInSubmit toLowerCase u tId tNow form st) = st) \<and>
   (normalizeName toLowerCase fullName = [] \<longrightarrow>
      signOutSubmit toLowerCase tAuto tNow fullName st =
        (Some ValidationError, ensureAutoSignOut tAuto st)) \<and>
   (normalizeName toLowerCase fullName \<noteq> [] \<and>
    (\<forall>r\<in>set (loadLog (ensureAutoSignOut tAuto st)).
        \<not> (signOutAt r = None \<and> nameKey r = normalizeName toLowerCase fullName)) \<longrightarrow>
      signOutSubmit toLowerCase tAuto tNow fullName st =
        (Some NotFoundError, ensureAutoSignOut tAuto st)) \<and>
   (fst (signOutSubmit toLowerCase tAuto tNow fullName st) \<noteq> None \<longrightarrow>
      snd (signOutSubmit toLowerCase tAuto tNow fullName st) = ensureAutoSignOut tAuto st \<and>
      length (loadLog (ensureAutoSignOut tAuto st)) = length (loadLog st)) \<and>
   ((\<forall>r\<in>set (loadLog st). \<not> (signOutAt r = None \<and> tAuto \<ge> signInAt r + 8 * 60 * 60 * 1000)) \<longrightarrow>
      ensureAutoSignOut tAuto st = st)"
proof -
  have 1: "trim (firstNameValue form) = [] \<or> trim (lastNameValue form) = [] \<or>
    trim (agencyValue form) = [] \<or>
    (reasonValue form = js ''Other'' \<and> trim (otherDetailsValue form) = []) \<longrightarrow>
      signInSubmit toLowerCase u tId tNow form st = (Some ValidationError, st)"
    using signInSubmit_invalid [of form toLowerCase u tId tNow st] by blast
  have 2: "fst (signInSubmit toLowerCase u tId tNow form st) \<noteq> None \<longrightarrow>
      snd (signInSubmit toLowerCase u tId tNow form st) = st"
    using signInSubmit_failure [of toLowerCase u tId tNow form st] by auto
  have 3: "normalizeName toLowerCase fullName = [] \<longrightarrow>
      signOutSubmit toLowerCase tAuto tNow fullName st =
        (Some ValidationError, ensureAutoSignOut tAuto st)"
    using signOutSubmit_empty_key [of toLowerCase fullName tAuto tNow st] by blast
  have 4: "normalizeName toLowerCase fullName \<noteq> [] \<and>
    (\<forall>r\<in>set (loadLog (ensureAutoSignOut tAuto st)).
        \<not> (signOutAt r = None \<and> nameKey r = normalizeName toLowerCase fullName)) \<longrightarrow>
      signOutSubmit toLowerCase tAuto tNow fullName st =
        (Some NotFoundError, ensureAutoSignOut tAuto st)"
    using signOutSubmit_not_found [of toLowerCase fullName tAuto st tNow] by blast
  have 5: "fst (signOutSubmit toLowerCase tAuto tNow fullName st) \<noteq> None \<longrightarrow>
      snd (signOutSubmit toLowerCase tAuto tNow fullName st) = ensureAutoSignOut tAuto st \<and>
      length (loadLog (ensureAutoSignOut tAuto st)) = length (loadLog st)"
    using signOutSubmit_failure [of toLowerCase tAuto tNow fullName st]
      length_ensureAutoSignOut [of tAuto st] by blast
  have 6: "(\<forall>r\<in>set (loadLog st). \<not> (signOutAt r = None \<and> tAuto \<ge> signInAt r + 8 * 60 * 60 * 1000)) \<longrightarrow>
      ensureAutoSignOut tAuto st = st"
    using ensureAutoSignOut_none_due [of st tAuto] unfolding due_def by blast
  from 1 2 3 4 5 6 show ?thesis by (intro conjI)
qed

theorem C4_failures_witness:
  "signInSubmit lowerLatin None 1000 1001 exFormBlank exStore = (Some ValidationError, exStore) \<and>
   signOutSubmit lowerLatin 1000 1001 (js ''  '') exStore = (Some ValidationError, exStore) \<and>
   signOutSubmit lowerLatin 1000 1001 (js ''Nobody Here'') exStore = (Some NotFoundError, exStore)"
proof -
  note t = C4_failures [of exFormBlank lowerLatin None 1000 1001 exStore "js ''  ''" 1000]
  note u = C4_failures [of exFormBlank lowerLatin None 1000 1001 exStore "js ''Nobody Here''" 1000]
  have b: "trim (firstNameValue exFormBlank) = []"
    by (simp add: exFormBlank_def trim_def isSpace_def)
  have 1: "signInSubmit lowerLatin None 1000 1001 exFormBlank exStore =
             (Some ValidationError, exStore)"
    using conjunct1 [OF t] b by blast
  have 2: "signOutSubmit lowerLatin 1000 1001 (js ''  '') exStore = (Some ValidationError, exStore)"
  proof -
    have "normalizeName lowerLatin (js ''  '') = [] \<longrightarrow>
            signOutSubmit lowerLatin 1000 1001 (js ''  '') exStore = (Some ValidationError, exStore)"
      using conjunct1 [OF conjunct2 [OF conjunct2 [OF t]]]
      unfolding ensureAutoSignOut_exStore_early .
    then show ?thesis
      using normalizeName_blank by (rule mp)
  qed
  have n: "normalizeName lowerLatin (js ''Nobody Here'') \<noteq> [] \<and>
           (\<forall>r\<in>set (loadLog exStore).
              \<not> (signOutAt r = None \<and> nameKey r = normalizeName lowerLatin (js ''Nobody Here'')))"
    unfolding normalizeName_nobody loadLog_exStore
    by (simp add: exJane0_def exJane1_def exBob_def js_def)
  have "normalizeName lowerLatin (js ''Nobody Here'') \<noteq> [] \<and>
           (\<forall>r\<in>set (loadLog exStore).
              \<not> (signOutAt r = None \<and> nameKey r = normalizeName lowerLatin (js ''Nobody Here''))) \<longrightarrow>
        signOutSubmit lowerLatin 1000 1001 (js ''Nobody Here'') exStore =
          (Some NotFoundError, exStore)"
    using conjunct1 [OF conjunct2 [OF conjunct2 [OF conjunct2 [OF u]]]]
    unfolding ensureAutoSignOut_exStore_early .
  then have 3: "signOutSubmit lowerLatin 1000 1001 (js ''Nobody Here'') exStore =
             (Some NotFoundError, exStore)"
    using n by (rule mp)
  from 1 2 3 show ?thesis by (intro conjI)
qed

theorem C4_failing_sign_out_counterexample:
  "signOutSubmit lowerLatin 28800000 28800001 [] exStore = (Some ValidationError, exStoreClosed) \<and>
   signOutSubmit lowerLatin 28800000 28800001 (js ''Nobody Here'') exStore =
     (Some NotFoundError, exStoreClosed) \<and>
   exStoreClosed \<noteq> exStore \<and>
   signOutAt (loadLog exStore ! 0) = None \<and>
   signOutAt (loadLog exStoreClosed ! 0) = Some 28800000 \<and>
   writes exStore = 0 \<and> writes exStoreClosed = 1"
proof -
  have e: "normalizeName lowerLatin [] = []"
    by (simp add: normalizeName_def trim_def lowerLatin_def js_def)
  have 1: "signOutSubmit lowerLatin 28800000 28800001 [] exStore =
             (Some ValidationError, exStoreClosed)"
    by (simp add: signOutSubmit_def Let_def e ensureAutoSignOut_exStore_late)
  have l: "loadLog exStoreClosed =
             [exJane0\<lparr>signOutAt := Some 28800000, autoSignedOut := True\<rparr>, exJane1, exBob]"
    by (simp add: loadLog_def exStoreClosed_def)
  have f: "findActiveByNameKey (js ''nobody here'') exStoreClosed = None"
    by (simp add: findActiveByNameKey_def Let_def l exJane0_def exJane1_def exBob_def js_def)
  have k: "js ''nobody here'' \<noteq> []"
    by (simp add: js_def)
  have 2: "signOutSubmit lowerLatin 28800000 28800001 (js ''Nobody Here'') exStore =
             (Some NotFoundError, exStoreClosed)"
    using k by (simp add: signOutSubmit_def Let_def normalizeName_nobody
        ensureAutoSignOut_exStore_late f)
  have 3: "exStoreClosed \<noteq> exStore"
    by (simp add: exStoreClosed_def exStore_def)
  have 4: "signOutAt (loadLog exStore ! 0) = None"
    by (simp add: loadLog_exStore exJane0_def)
  have 5: "signOutAt (loadLog exStoreClosed ! 0) = Some 28800000"
    by (simp add: l)
  have 6: "writes exStore = 0" "writes exStoreClosed = 1"
    by (simp_all add: exStore_def exStoreClosed_def)
  from 1 2 3 4 5 6 show ?thesis by (intro conjI)
qed

subsection \<open>Sign-in and the automatic sign-out\<close>

text \<open>
  Claim C9, amended. The automatic sign-out belongs to the initialisation of the sign-in
  page, not to the submission: \<open>initSignIn\<close> closes every open record whose deadline has
  passed when the page is initialised, at its deadline and with \<open>autoSignedOut\<close> true,
  and saves the collection when there is such a record. The submit handler closes
  nothing: it leaves every stored record as it is, also an open one whose deadline has
  passed since, and a successful submission appends one record.
\<close>

theorem C9_sign_in_auto_close:
  "loadLog (initSignIn tInit st) = map (closeIfDue tInit) (loadLog st) \<and>
   ((\<exists>r\<in>set (loadLog st). due tInit r) \<longrightarrow>
      initSignIn tInit st = saveLog (map (closeIfDue tInit) (loadLog st)) st) \<and>
   take (length (loadLog st1)) (loadLog (snd (signInSubmit toLowerCase u tId tNow form st1))) =
     loadLog st1 \<and>
   (fst (signInSubmit toLowerCase u tId tNow form st1) = None \<longrightarrow>
      length (loadLog (snd (signInSubmit toLowerCase u tId tNow form st1))) =
        Suc (length (loadLog st1)))"
proof -
  have 1: "loadLog (initSignIn tInit st) = map (closeIfDue tInit) (loadLog st)"
    unfolding initSignIn_def by (rule loadLog_ensureAutoSignOut)
  have 2: "(\<exists>r\<in>set (loadLog st). due tInit r) \<longrightarrow>
      initSignIn tInit st = saveLog (map (closeIfDue tInit) (loadLog st)) st"
    unfolding initSignIn_def by (simp add: ensureAutoSignOut_eq)
  have 3: "take (length (loadLog st1))
             (loadLog (snd (signInSubmit toLowerCase u tId tNow form st1))) = loadLog st1"
    by (rule signInSubmit_prefix)
  have 4: "fst (signInSubmit toLowerCase u tId tNow form st1) = None \<longrightarrow>
      length (loadLog (snd (signInSubmit toLowerCase u tId tNow form st1))) =
        Suc (length (loadLog st1))"
    by (simp add: signInSubmit_def Let_def)
  from 1 2 3 4 show ?thesis by (intro conjI)
qed

theorem C9_sign_in_auto_close_witness:
  "initSignIn 28800000 exStore =
     saveLog [exJane0\<lparr>signOutAt := Some 28800000, autoSignedOut := True\<rparr>, exJane1, exBob] exStore \<and>
   take 3 (loadLog (snd (signInSubmit lowerLatin None 40000000 40000000 exFormTom exStoreClosed))) =
     [exJane0\<lparr>signOutAt := Some 28800000, autoSignedOut := True\<rparr>, exJane1, exBob] \<and>
   length (loadLog (snd (signInSubmit lowerLatin None 40000000 40000000 exFormTom exStoreClosed))) = 4"
proof -
  note t = C9_sign_in_auto_close
    [of 28800000 exStore exStoreClosed lowerLatin None 40000000 40000000 exFormTom]
  have d: "\<exists>r\<in>set (loadLog exStore). due 28800000 r"
    by (simp add: loadLog_exStore due_def exJane0_def)
  have m: "map (closeIfDue 28800000) (loadLog exStore) =
             [exJane0\<lparr>signOutAt := Some 28800000, autoSignedOut := True\<rparr>, exJane1, exBob]"
    by (simp add: loadLog_exStore closeIfDue_def due_def exJane0_def exJane1_def exBob_def)
  have l: "loadLog exStoreClosed =
             [exJane0\<lparr>signOutAt := Some 28800000, autoSignedOut := True\<rparr>, exJane1, exBob]"
    by (simp add: loadLog_def exStoreClosed_def)
  have "initSignIn 28800000 exStore =
          saveLog (map (closeIfDue 28800000) (loadLog exStore)) exStore"
    using conjunct1 [OF conjunct2 [OF t]] d by (rule mp)
  then have 1: "initSignIn 28800000 exStore =
     saveLog [exJane0\<lparr>signOutAt := Some 28800000, autoSignedOut := True\<rparr>, exJane1, exBob] exStore"
    unfolding m .
  have "take (length (loadLog exStoreClosed))
          (loadLog (snd (signInSubmit lowerLatin None 40000000 40000000 exFormTom exStoreClosed))) =
        loadLog exStoreClosed"
    by (rule conjunct1 [OF conjunct2 [OF conjunct2 [OF t]]])
  then have 2: "take 3
          (loadLog (snd (signInSubmit lowerLatin None 40000000 40000000 exFormTom exStoreClosed))) =
        [exJane0\<lparr>signOutAt := Some 28800000, autoSignedOut := True\<rparr>, exJane1, exBob]"
    unfolding l by (simp add: numeral_3_eq_3)
  have f: "fst (signInSubmit lowerLatin None 40000000 40000000 exFormTom exStoreClosed) = None"
    by (simp add: signInSubmit_valid [OF exFormTom_valid])
  have "length (loadLog (snd (signInSubmit lowerLatin None 40000000 40000000 exFormTom exStoreClosed))) =
          Suc (length (loadLog exStoreClosed))"
    using conjunct2 [OF conjunct2 [OF conjunct2 [OF t]]] f by (rule mp)
  then have 3: "length (loadLog (snd (signInSubmit lowerLatin None 40000000 40000000 exFormTom exStoreClosed))) = 4"
    unfolding l by simp
  from 1 2 3 show ?thesis by (intro conjI)
qed

theorem C9_submit_does_not_close_counterexample:
  "fst (signInSubmit lowerLatin None 28800000 28800000 exFormTom (initSignIn 1000 exStore)) = None \<and>
   loadLog (snd (signInSubmit lowerLatin None 28800000 28800000 exFormTom
                   (initSignIn 1000 exStore))) ! 0 = exJane0 \<and>
   signOutAt exJane0 = None \<and>
   signInAt exJane0 + 8 * 60 * 60 * 1000 \<le> 28800000"
proof -
  have i: "initSignIn 1000 exStore = exStore"
    unfolding initSignIn_def by (rule ensureAutoSignOut_exStore_early)
  have 1: "fst (signInSubmit lowerLatin None 28800000 28800000 exFormTom exStore) = None"
    by (simp add: signInSubmit_valid [OF exFormTom_valid])
  have "0 < length (loadLog exStore)"
    by (simp add: loadLog_exStore)
  from signInSubmit_keeps [OF this, of lowerLatin None 28800000 28800000 exFormTom]
  have "loadLog (snd (signInSubmit lowerLatin None 28800000 28800000 exFormTom exStore)) ! 0 =
          loadLog exStore ! 0"
    by (rule conjunct2)
  then have 2: "loadLog (snd (signInSubmit lowerLatin None 28800000 28800000 exFormTom exStore)) ! 0 =
          exJane0"
    by (simp add: loadLog_exStore)
  have 3: "signOutAt exJane0 = None" "signInAt exJane0 + 8 * 60 * 60 * 1000 \<le> 28800000"
    by (simp_all add: exJane0_def)
  from 1 2 3 show ?thesis unfolding i by (intro conjI)
qed

subsection \<open>Record listing\<close>

lemma includes'_sublist: "includes' s q \<longleftrightarrow> sublist q s"
  by (induction s) (simp_all add: sublist_Cons_right)

text \<open>
  Claim C8, amended. For every stored collection and filter text, \<open>render\<close> first applies
  the automatic sign-out and then lists the records in reverse creation order. The filter
  text is trimmed first. When the trimmed text is not empty, a record is listed exactly
  when the trimmed text occurs, case ignored, in its first name, last name, agency,
  reason and other details joined by single spaces; when the trimmed text is empty,
  every record is listed. Lower-casing is assumed to give the empty string for the empty
  string only.
\<close>

theorem C8_render:
  assumes "\<And>t. toLowerCase t = [] \<longleftrightarrow> t = []"
  shows "render toLowerCase now searchValue st =
           (filter (\<lambda>r. trim searchValue = [] \<or>
                        caseInsensitiveSubstring toLowerCase (trim searchValue) (hay r))
              (rev (loadLog (ensureAutoSignOut now st))),
            ensureAutoSignOut now st) \<and>
         hay r = firstName r @ [0x20] @ lastName r @ [0x20] @ agency r @ [0x20] @ reason r @
                 [0x20] @ otherDetails r"
proof -
  have h: "hay r = firstName r @ [0x20] @ lastName r @ [0x20] @ agency r @ [0x20] @ reason r @
                 [0x20] @ otherDetails r"
    by (simp add: hay_def js_space)
  have "render toLowerCase now searchValue st =
           (filter (\<lambda>r. trim searchValue = [] \<or>
                        caseInsensitiveSubstring toLowerCase (trim searchValue) (hay r))
              (rev (loadLog (ensureAutoSignOut now st))),
            ensureAutoSignOut now st)"
  proof (cases "trim searchValue = []")
    case True
    then have "toLowerCase (trim searchValue) = []"
      by (simp only: assms)
    with True show ?thesis
      by (simp add: render_def Let_def)
  next
    case False
    then have "toLowerCase (trim searchValue) \<noteq> []"
      by (simp only: assms) simp
    with False show ?thesis
      by (simp add: render_def Let_def includes'_sublist caseInsensitiveSubstring_def)
  qed
  with h show ?thesis by (rule conjI [rotated])
qed

theorem C8_render_witness:
  "render lowerLatin 1000 (js ''  ACME '') exStore = ([exJane0], exStore) \<and>
   render lowerLatin 1000 [0x20, 0xA0] exStore = ([exBob, exJane1, exJane0], exStore)"
proof -
  note t = conjunct1 [OF C8_render [of lowerLatin 1000 "js ''  ACME ''" exStore, OF lowerLatin_Nil]]
  note u = conjunct1 [OF C8_render [of lowerLatin 1000 "[0x20, 0xA0]" exStore, OF lowerLatin_Nil]]
  have q: "trim (js ''  ACME '') = js ''ACME''"
    by (simp add: trim_def isSpace_def js_def)
  have k: "js ''ACME'' \<noteq> []"
    by (simp add: js_def)
  have b: "trim [0x20, 0xA0] = []"
    by (simp add: trim_def isSpace_def)
  have h0: "caseInsensitiveSubstring lowerLatin (js ''ACME'') (hay exJane0)"
    unfolding caseInsensitiveSubstring_def includes'_sublist [symmetric]
    by (simp add: hay_def exJane0_def lowerLatin_def js_def)
  have h1: "\<not> caseInsensitiveSubstring lowerLatin (js ''ACME'') (hay exJane1)"
    unfolding caseInsensitiveSubstring_def includes'_sublist [symmetric]
    by (simp add: hay_def exJane1_def lowerLatin_def js_def)
  have h2: "\<not> caseInsensitiveSubstring lowerLatin (js ''ACME'') (hay exBob)"
    unfolding caseInsensitiveSubstring_def includes'_sublist [symmetric]
    by (simp add: hay_def exBob_def lowerLatin_def js_def)
  have f: "filter (\<lambda>r. js ''ACME'' = [] \<or> caseInsensitiveSubstring lowerLatin (js ''ACME'') (hay r))
             [exBob, exJane1, exJane0] = [exJane0]"
    using k h0 h1 h2 by simp
  have r: "rev [exJane0, exJane1, exBob] = [exBob, exJane1, exJane0]"
    by simp
  have g: "filter (\<lambda>r. [] = ([] :: jsString) \<or> caseInsensitiveSubstring lowerLatin [] (hay r))
             [exBob, exJane1, exJane0] = [exBob, exJane1, exJane0]"
    by simp
  have 1: "render lowerLatin 1000 (js ''  ACME '') exStore = ([exJane0], exStore)"
    using t unfolding q ensureAutoSignOut_exStore_early loadLog_exStore r f .
  have 2: "render lowerLatin 1000 [0x20, 0xA0] exStore = ([exBob, exJane1, exJane0], exStore)"
    using u unfolding b ensureAutoSignOut_exStore_early loadLog_exStore r g .
  from 1 2 show ?thesis by (rule conjI)
qed

theorem C8_untrimmed_filter_counterexample:
  "js '' jane'' \<noteq> [] \<and>
   fst (render lowerLatin 1000 (js '' jane'') exStore) = [exJane1, exJane0] \<and>
   \<not> caseInsensitiveSubstring lowerLatin (js '' jane'') (hay exJane0) \<and>
   \<not> caseInsensitiveSubstring lowerLatin (js '' jane'') (hay exJane1) \<and>
   \<not> caseInsensitiveSubstring lowerLatin (js '' jane'')
       (firstName exJane0 @ lastName exJane0 @ agency exJane0 @ reason exJane0 @
        otherDetails exJane0) \<and>
   \<not> caseInsensitiveSubstring lowerLatin (js '' jane'')
       (firstName exJane1 @ lastName exJane1 @ agency exJane1 @ reason exJane1 @
        otherDetails exJane1)"
proof -
  have 0: "js '' jane'' \<noteq> []"
    by (simp add: js_def)
  have q: "lowerLatin (trim (js '' jane'')) = js ''jane''"
    by (simp add: trim_def isSpace_def lowerLatin_def js_def)
  have k: "js ''jane'' \<noteq> []"
    by (simp add: js_def)
  have i0: "includes' (lowerLatin (hay exJane0)) (js ''jane'')"
    by (simp add: hay_def exJane0_def lowerLatin_def js_def)
  have i1: "includes' (lowerLatin (hay exJane1)) (js ''jane'')"
    by (simp add: hay_def exJane1_def lowerLatin_def js_def)
  have i2: "\<not> includes' (lowerLatin (hay exBob)) (js ''jane'')"
    by (simp add: hay_def exBob_def lowerLatin_def js_def)
  have 1: "fst (render lowerLatin 1000 (js '' jane'') exStore) = [exJane1, exJane0]"
    using k i0 i1 i2
    by (simp add: render_def Let_def q ensureAutoSignOut_exStore_early loadLog_exStore)
  have 2: "\<not> caseInsensitiveSubstring lowerLatin (js '' jane'') (hay exJane0)"
    unfolding caseInsensitiveSubstring_def includes'_sublist [symmetric]
    by (simp add: hay_def exJane0_def lowerLatin_def js_def)
  have 3: "\<not> caseInsensitiveSubstring lowerLatin (js '' jane'') (hay exJane1)"
    unfolding caseInsensitiveSubstring_def includes'_sublist [symmetric]
    by (simp add: hay_def exJane1_def lowerLatin_def js_def)
  have 4: "\<not> caseInsensitiveSubstring lowerLatin (js '' jane'')
       (firstName exJane0 @ lastName exJane0 @ agency exJane0 @ reason exJane0 @
        otherDetails exJane0)"
    unfolding caseInsensitiveSubstring_def includes'_sublist [symmetric]
    by (simp add: exJane0_def lowerLatin_def js_def)
  have 5: "\<not> caseInsensitiveSubstring lowerLatin (js '' jane'')
       (firstName exJane1 @ lastName exJane1 @ agency exJane1 @ reason exJane1 @
        otherDetails exJane1)"
    unfolding caseInsensitiveSubstring_def includes'_sublist [symmetric]
    by (simp add: exJane1_def lowerLatin_def js_def)
  from 0 1 2 3 4 5 show ?thesis by (intro conjI)
qed

subsection \<open>CSV export\<close>

lemma doubleQuotes_concat:
  "doubleQuotes s = concat (map (\<lambda>c. if c = 0x22 then [0x22, 0x22] else [c]) s)"
  by (induction s) simp_all

lemma escapeCSV_fieldSpec: "escapeCSV s = fieldSpec s"
proof -
  have "(\<exists>c\<in>set s. c = 0x22 \<or> c = 0x2C \<or> c = 0x0A) \<longleftrightarrow> needsQuoting s"
    unfolding needsQuoting_def by blast
  then show ?thesis
    by (simp add: escapeCSV_def fieldSpec_def quoted_def doubleQuotes_concat)
qed

lemma join_lines: "join sep (x # xs) = x @ concat (map (\<lambda>y. sep @ y) xs)"
  by (induction xs arbitrary: x) (simp_all add: join_Cons)

lemma csvLoop_append:
  "csvLoop toISOString lines rs =
     lines @ map (\<lambda>r. join (js '','') (csvFields toISOString r)) rs"
  by (induction rs arbitrary: lines) simp_all

lemma fieldSpec_yes_no: "fieldSpec (js ''YES'') = js ''YES''" "fieldSpec (js ''NO'') = js ''NO''"
  by (simp_all add: fieldSpec_def needsQuoting_def js_def)

lemma join_csvFields: "join (js '','') (csvFields toISOString r) = rowSpec toISOString r"
  by (simp add: csvFields_def rowSpec_def escapeCSV_fieldSpec fieldSpec_yes_no)

lemma join_header: "join (js '','') header = headerLine"
  by (simp add: header_def headerLine_def js_def)

text \<open>
  Claim C6. For every collection the CSV text is the header line
  \<^verbatim>\<open>first_name,last_name,agency_institution,reason,other_details,sign_in,sign_out,auto_signed_out\<close>
  followed, for each record in stored order, by a line feed and the line of the record:
  its eight fields separated by commas, the last one \<^verbatim>\<open>YES\<close> when \<open>autoSignedOut\<close> holds
  and \<^verbatim>\<open>NO\<close> otherwise. A field is escaped on its own: it is wrapped in double quotes,
  with every double quote inside doubled, exactly when it holds a comma, a double quote
  or a line feed, and is left as it is otherwise.
\<close>

theorem C6_toCSV:
  "toCSV toISOString records =
     headerLine @ concat (map (\<lambda>r. [0x0A] @ rowSpec toISOString r) records) \<and>
   escapeCSV s =
     (if 0x2C \<in> set s \<or> 0x22 \<in> set s \<or> 0x0A \<in> set s
      then [0x22] @ concat (map (\<lambda>c. if c = 0x22 then [0x22, 0x22] else [c]) s) @ [0x22]
      else s)"
proof -
  have "csvLoop toISOString [join (js '','') header] records =
          headerLine # map (rowSpec toISOString) records"
    by (simp add: csvLoop_append join_header join_csvFields)
  then have 1: "toCSV toISOString records =
     headerLine @ concat (map (\<lambda>r. [0x0A] @ rowSpec toISOString r) records)"
    by (simp add: toCSV_def join_lines comp_def)
  have 2: "escapeCSV s =
     (if 0x2C \<in> set s \<or> 0x22 \<in> set s \<or> 0x0A \<in> set s
      then [0x22] @ concat (map (\<lambda>c. if c = 0x22 then [0x22, 0x22] else [c]) s) @ [0x22]
      else s)"
    by (simp add: escapeCSV_fieldSpec fieldSpec_def needsQuoting_def quoted_def)
  from 1 2 show ?thesis by (rule conjI)
qed

theorem C6_toCSV_witness:
  "toCSV exISO [exBob, exQuote] =
     js ''first_name,last_name,agency_institution,reason,other_details,sign_in,sign_out,auto_signed_out'' @
     [0x0A] @
     js ''Bob,Ray,Lab,Other,tour,1970-01-01T00:00:00.000Z,1970-01-01T00:00:05.000Z,NO'' @
     [0x0A] @
     js ''Al,Oz,'' @ [0x22] @ js ''Acme, Inc'' @ [0x22] @ js '',Other,'' @
     [0x22, 0x22, 0x22] @ js ''VIP'' @ [0x22, 0x22, 0x22] @
     js '',1970-01-01T00:00:00.000Z,1970-01-01T08:00:00.000Z,YES'' \<and>
   headerLine @ concat (map (\<lambda>r. [0x0A] @ rowSpec exISO r) [exBob, exQuote]) =
     toCSV exISO [exBob, exQuote] \<and>
   escapeCSV [0x61, 0x2C, 0x22, 0x62, 0x22, 0x0A, 0x63] =
     [0x22, 0x61, 0x2C, 0x22, 0x22, 0x62, 0x22, 0x22, 0x0A, 0x63, 0x22] \<and>
   escapeCSV (js ''plain text; no quoting'') = js ''plain text; no quoting''"
proof -
  have 1: "toCSV exISO [exBob, exQuote] =
     js ''first_name,last_name,agency_institution,reason,other_details,sign_in,sign_out,auto_signed_out'' @
     [0x0A] @
     js ''Bob,Ray,Lab,Other,tour,1970-01-01T00:00:00.000Z,1970-01-01T00:00:05.000Z,NO'' @
     [0x0A] @
     js ''Al,Oz,'' @ [0x22] @ js ''Acme, Inc'' @ [0x22] @ js '',Other,'' @
     [0x22, 0x22, 0x22] @ js ''VIP'' @ [0x22, 0x22, 0x22] @
     js '',1970-01-01T00:00:00.000Z,1970-01-01T08:00:00.000Z,YES''"
    by (simp add: toCSV_def csvFields_def escapeCSV_def header_def exISO_def exBob_def
        exQuote_def js_def)
  have 2: "headerLine @ concat (map (\<lambda>r. [0x0A] @ rowSpec exISO r) [exBob, exQuote]) =
     toCSV exISO [exBob, exQuote]"
    by (rule conjunct1 [OF C6_toCSV [of exISO "[exBob, exQuote]" "[]"], symmetric])
  have 3: "escapeCSV [0x61, 0x2C, 0x22, 0x62, 0x22, 0x0A, 0x63] =
     [0x22, 0x61, 0x2C, 0x22, 0x22, 0x62, 0x22, 0x22, 0x0A, 0x63, 0x22]"
    using conjunct2 [OF C6_toCSV [of exISO "[]" "[0x61, 0x2C, 0x22, 0x62, 0x22, 0x0A, 0x63]"]]
    by simp
  have 4: "escapeCSV (js ''plain text; no quoting'') = js ''plain text; no quoting''"
    using conjunct2 [OF C6_toCSV [of exISO "[]" "js ''plain text; no quoting''"]]
    by (simp add: js_def)
  from 1 2 3 4 show ?thesis by (intro conjI)
qed

end
